theory Spec2Isabelle
  imports Main "HOL-Library.AList"
begin

section \<open>Data model of the bridge server (server/src/index.ts)\<close>

text \<open>
  JSON values travel through the manager untouched (\<^verbatim>\<open>unknown\<close> in the source), so a
  plain syntax tree is enough.
\<close>

datatype json =
    JNull
  | JBool bool
  | JNumber int
  | JString string
  | JArray "json list"
  | JObject "(string \<times> json) list"

text \<open>\<^verbatim>\<open>interface BridgeRequest { id; action; payload }\<close>\<close>

record BridgeRequest =
  id_req :: string
  action :: string
  payload :: "(string \<times> json) list"

text \<open>
  \<^verbatim>\<open>interface BridgeResponse { id; result?; error? }\<close>: an optional field that is
  absent is \<open>None\<close>.
\<close>

record BridgeResponse =
  id_res :: string
  result :: "json option"
  error :: "string option"

text \<open>
  A call of \<^verbatim>\<open>sendRequest\<close> creates one promise; the promise, its \<^verbatim>\<open>resolve\<close> and
  \<^verbatim>\<open>reject\<close> continuations and the timer handle that \<^verbatim>\<open>setTimeout\<close> returns inside its
  executor are all identified by the sequence number of the call.
  \<^verbatim>\<open>interface PendingRequest { resolve; reject; timeout }\<close>
\<close>

type_synonym call_id = nat

record PendingRequest =
  resolve :: call_id
  reject :: call_id
  timeout :: call_id

text \<open>What a continuation was invoked with: \<^verbatim>\<open>resolve(value)\<close> or \<^verbatim>\<open>reject(new Error(message))\<close>.\<close>

datatype outcome = Resolved "json option" | Rejected string

text \<open>The readyState of a socket of the ws library, and what was written on it.\<close>

datatype ready_state = CONNECTING | OPEN_ws | CLOSING | CLOSED

datatype wire_message =
    Connected string
  | Ping
  | Request BridgeRequest

record WebSocket =
  readyState :: ready_state
  sent :: "wire_message list"

text \<open>
  The armed timers of the runtime: the closure passed to \<^verbatim>\<open>setTimeout\<close> captures
  \<^verbatim>\<open>requestId\<close> (and the \<^verbatim>\<open>reject\<close> of its own call, which is the handle), and the
  runtime keeps the time at which it is due.
\<close>

record timer =
  t_requestId :: string
  due :: nat

datatype level = LOG | WARN | ERROR

text \<open>
  \<^verbatim>\<open>class PluginConnectionManager\<close> with its three private fields, followed by the part
  of the runtime the methods act on: the timer table, the invocations of the promise
  continuations in the order they happened, the console, the number of values drawn from
  \<^verbatim>\<open>uuidv4\<close>, the number of \<^verbatim>\<open>sendRequest\<close> calls so far and the clock in milliseconds.
  The two \<^verbatim>\<open>Map\<close>s are association lists: a JavaScript Map iterates in insertion order,
  \<^verbatim>\<open>set\<close> on a present key keeps its place, which is what \<open>AList.update\<close> does.
\<close>

record manager =
  connections :: "(string \<times> WebSocket) list"
  pendingRequests :: "(string \<times> PendingRequest) list"
  activeConnectionId :: "string option"
  timers :: "(call_id \<times> timer) list"
  outcomes :: "(call_id \<times> outcome) list"
  console :: "(level \<times> string) list"
  uuid_calls :: nat
  next_call :: call_id
  now :: nat

definition init :: manager where
  "init = \<lparr>connections = [], pendingRequests = [], activeConnectionId = None,
            timers = [], outcomes = [], console = [],
            uuid_calls = 0, next_call = 0, now = 0\<rparr>"

definition REQUEST_TIMEOUT_MS :: nat where
  "REQUEST_TIMEOUT_MS = 30000"

subsection \<open>Strings built by template literals\<close>

definition digit_char :: "nat \<Rightarrow> char" where
  "digit_char d = ''0123456789'' ! d"

fun show_nat :: "nat \<Rightarrow> string" where
  "show_nat n = (if n < 10 then [digit_char n] else show_nat (n div 10) @ [digit_char (n mod 10)])"

declare show_nat.simps [simp del]

definition NO_PLUGIN_MESSAGE :: string where
  "NO_PLUGIN_MESSAGE =
     ''No RemNote plugin connected. Open RemNote and ensure the MCP Bridge plugin is active.''"

definition TIMEOUT_MESSAGE :: string where
  "TIMEOUT_MESSAGE = ''Request timeout after '' @ show_nat REQUEST_TIMEOUT_MS @ ''ms''"

definition NOT_READY_MESSAGE :: string where
  "NOT_READY_MESSAGE = ''WebSocket connection not ready''"

subsection \<open>Primitives of the runtime\<close>

text \<open>
  \<^verbatim>\<open>ws.send(data)\<close> without a callback: the frame goes out on an open socket and is
  dropped otherwise.
\<close>

definition ws_send :: "wire_message \<Rightarrow> WebSocket \<Rightarrow> WebSocket" where
  "ws_send m ws = (if readyState ws = OPEN_ws then ws\<lparr>sent := sent ws @ [m]\<rparr> else ws)"

text \<open>
  A socket is an object shared between the caller and the \<^verbatim>\<open>connections\<close> map; a write
  on the socket tracked under \<open>cid\<close> changes that entry in place.
\<close>

definition socket_send :: "string \<Rightarrow> wire_message \<Rightarrow> manager \<Rightarrow> manager" where
  "socket_send cid m st = st\<lparr>connections := AList.map_entry cid (ws_send m) (connections st)\<rparr>"

definition console_write :: "level \<Rightarrow> string \<Rightarrow> manager \<Rightarrow> manager" where
  "console_write l s st = st\<lparr>console := console st @ [(l, s)]\<rparr>"

text \<open>Invoking \<^verbatim>\<open>resolve\<close> or \<^verbatim>\<open>reject\<close> of call \<open>c\<close>.\<close>

definition settle :: "call_id \<Rightarrow> outcome \<Rightarrow> manager \<Rightarrow> manager" where
  "settle c out st = st\<lparr>outcomes := outcomes st @ [(c, out)]\<rparr>"

definition clearTimeout :: "call_id \<Rightarrow> manager \<Rightarrow> manager" where
  "clearTimeout h st = st\<lparr>timers := AList.delete h (timers st)\<rparr>"

text \<open>Everything the caller of call \<open>c\<close> has observed, in order.\<close>

definition outcomes_of :: "manager \<Rightarrow> call_id \<Rightarrow> outcome list" where
  "outcomes_of st c = map snd (filter (\<lambda>e. fst e = c) (outcomes st))"

section \<open>PluginConnectionManager\<close>

text \<open>\<^verbatim>\<open>!this.activeConnectionId\<close>: null and the empty string are both falsy.\<close>

definition falsy_id :: "string option \<Rightarrow> bool" where
  "falsy_id a = (case a of None \<Rightarrow> True | Some s \<Rightarrow> s = [])"

text \<open>
  \<^verbatim>\<open>addConnection(ws)\<close>. The first argument stands for \<^verbatim>\<open>uuidv4\<close>: its \<open>n\<close>-th call
  returns \<open>uuidv4 n\<close>. The two handlers it registers are \<open>on_message\<close> and \<open>on_close\<close>
  below, the latter with the captured \<^verbatim>\<open>connectionId\<close> as argument.
\<close>

definition addConnection :: "(nat \<Rightarrow> string) \<Rightarrow> manager \<Rightarrow> WebSocket \<Rightarrow> string \<times> manager" where
  "addConnection uuidv4 st ws =
     (let connectionId = uuidv4 (uuid_calls st);
          st1 = st\<lparr>uuid_calls := Suc (uuid_calls st)\<rparr>;
          st2 = st1\<lparr>connections := AList.update connectionId ws (connections st1)\<rparr>;
          st3 = (if falsy_id (activeConnectionId st2)
                 then st2\<lparr>activeConnectionId := Some connectionId\<rparr> else st2);
          st4 = console_write LOG
                  (''[plugin] connected: '' @ connectionId @ '' (total: ''
                     @ show_nat (length (connections st3)) @ '')'') st3;
          st5 = socket_send connectionId (Connected connectionId) st4
      in (connectionId, st5))"

text \<open>The \<^verbatim>\<open>'close'\<close> handler of the connection registered under \<open>connectionId\<close>.\<close>

definition on_close :: "manager \<Rightarrow> string \<Rightarrow> manager" where
  "on_close st connectionId =
     (let st1 = st\<lparr>connections := AList.delete connectionId (connections st)\<rparr>;
          st2 = (if activeConnectionId st1 = Some connectionId
                 then (let remaining = map fst (connections st1)
                       in st1\<lparr>activeConnectionId :=
                               (if length remaining > 0 then Some (remaining ! 0) else None)\<rparr>)
                 else st1)
      in console_write LOG
           (''[plugin] disconnected: '' @ connectionId @ '' (remaining: ''
              @ show_nat (length (connections st2)) @ '')'') st2)"

definition hasActiveConnection :: "manager \<Rightarrow> bool" where
  "hasActiveConnection st =
     (case activeConnectionId st of
        None \<Rightarrow> False
      | Some a \<Rightarrow> a \<in> set (map fst (connections st)))"

text \<open>\<^verbatim>\<open>this.connections.get(this.activeConnectionId!)\<close>\<close>

definition active_socket :: "manager \<Rightarrow> WebSocket option" where
  "active_socket st =
     (case activeConnectionId st of
        None \<Rightarrow> None
      | Some a \<Rightarrow> map_of (connections st) a)"

text \<open>\<^verbatim>\<open>ws.send(data)\<close> on the socket that lookup returned.\<close>

definition active_send :: "wire_message \<Rightarrow> manager \<Rightarrow> manager" where
  "active_send m st =
     (case activeConnectionId st of
        None \<Rightarrow> st
      | Some a \<Rightarrow> socket_send a m st)"

text \<open>
  \<^verbatim>\<open>sendRequest(action, payload)\<close>, up to the point where the promise is returned. The
  result is the number of the call (its promise) and the new state; an immediate
  rejection is already in \<open>outcomes\<close>.
\<close>

definition sendRequest ::
  "(nat \<Rightarrow> string) \<Rightarrow> manager \<Rightarrow> string \<Rightarrow> (string \<times> json) list \<Rightarrow> call_id \<times> manager" where
  "sendRequest uuidv4 st act pl =
     (let call = next_call st;
          st0 = st\<lparr>next_call := Suc call\<rparr>
      in if \<not> hasActiveConnection st0 then (call, settle call (Rejected NO_PLUGIN_MESSAGE) st0)
         else
          (let requestId = uuidv4 (uuid_calls st0);
               st1 = st0\<lparr>uuid_calls := Suc (uuid_calls st0)\<rparr>;
               request = \<lparr>id_req = requestId, action = act, payload = pl\<rparr>;
               st2 = st1\<lparr>timers := AList.update call
                         \<lparr>t_requestId = requestId, due = now st1 + REQUEST_TIMEOUT_MS\<rparr> (timers st1)\<rparr>;
               st3 = st2\<lparr>pendingRequests := AList.update requestId
                         \<lparr>resolve = call, reject = call, timeout = call\<rparr> (pendingRequests st2)\<rparr>;
               not_ready =
                 settle call (Rejected NOT_READY_MESSAGE)
                   ((clearTimeout call st3)
                      \<lparr>pendingRequests := AList.delete requestId (pendingRequests st3)\<rparr>)
           in case active_socket st3 of
                None \<Rightarrow> (call, not_ready)
              | Some ws \<Rightarrow>
                  if readyState ws = OPEN_ws
                  then (call, console_write LOG
                                (''[plugin] sent: '' @ act @ '' ('' @ requestId @ '')'')
                                (active_send (Request request) st3))
                  else (call, not_ready)))"

text \<open>
  The callback given to \<^verbatim>\<open>setTimeout\<close> by call \<open>h\<close>, run by the runtime when the timer
  fires (the runtime has disarmed the timer by then).
\<close>

definition timeout_callback :: "call_id \<Rightarrow> timer \<Rightarrow> manager \<Rightarrow> manager" where
  "timeout_callback h t st =
     settle h (Rejected TIMEOUT_MESSAGE)
       (st\<lparr>pendingRequests := AList.delete (t_requestId t) (pendingRequests st)\<rparr>)"

text \<open>\<^verbatim>\<open>if (response.error)\<close>: an absent field and the empty string are both falsy.\<close>

definition truthy_error :: "string option \<Rightarrow> bool" where
  "truthy_error e = (case e of None \<Rightarrow> False | Some s \<Rightarrow> s \<noteq> [])"

definition handleResponse :: "manager \<Rightarrow> BridgeResponse \<Rightarrow> manager" where
  "handleResponse st response =
     (case map_of (pendingRequests st) (id_res response) of
        None \<Rightarrow>
          console_write WARN
            (''[plugin] received response for unknown request: '' @ id_res response) st
      | Some pending \<Rightarrow>
          (let st1 = clearTimeout (timeout pending) st;
               st2 = st1\<lparr>pendingRequests := AList.delete (id_res response) (pendingRequests st1)\<rparr>;
               st3 = (if truthy_error (error response)
                      then settle (reject pending) (Rejected (the (error response))) st2
                      else settle (resolve pending) (Resolved (result response)) st2)
           in console_write LOG (''[plugin] received response: '' @ id_res response) st3))"

text \<open>
  The \<^verbatim>\<open>'message'\<close> handler: \<open>None\<close> is data on which \<^verbatim>\<open>JSON.parse\<close> throws; the
  exception is caught and logged.
\<close>

definition on_message :: "manager \<Rightarrow> BridgeResponse option \<Rightarrow> manager" where
  "on_message st msg =
     (case msg of
        None \<Rightarrow> console_write ERROR ''[plugin] failed to parse message:'' st
      | Some response \<Rightarrow> handleResponse st response)"

definition pingAll :: "manager \<Rightarrow> manager" where
  "pingAll st =
     st\<lparr>connections :=
          map (\<lambda>(cid, ws). (cid, if readyState ws = OPEN_ws then ws_send Ping ws else ws))
            (connections st)\<rparr>"

section \<open>The event loop\<close>

text \<open>
  One event of the single-threaded loop: a method call from outside, a socket event, a
  timer that fires (only an armed timer whose time has come), the socket library changing
  the readyState of a tracked socket, or time passing.
\<close>

datatype event =
    AddConnection WebSocket
  | Close string
  | Message "BridgeResponse option"
  | SendRequest string "(string \<times> json) list"
  | TimerFires call_id
  | PingAll
  | SocketState string ready_state
  | Advance nat

definition fire_timer :: "manager \<Rightarrow> call_id \<Rightarrow> manager" where
  "fire_timer st h =
     (case map_of (timers st) h of
        None \<Rightarrow> st
      | Some t \<Rightarrow>
          if due t \<le> now st
          then timeout_callback h t (st\<lparr>timers := AList.delete h (timers st)\<rparr>)
          else st)"

definition socket_state :: "manager \<Rightarrow> string \<Rightarrow> ready_state \<Rightarrow> manager" where
  "socket_state st cid rs =
     st\<lparr>connections := AList.map_entry cid (\<lambda>ws. ws\<lparr>readyState := rs\<rparr>) (connections st)\<rparr>"

fun step :: "(nat \<Rightarrow> string) \<Rightarrow> manager \<Rightarrow> event \<Rightarrow> manager" where
  "step uuidv4 st (AddConnection ws) = snd (addConnection uuidv4 st ws)"
| "step uuidv4 st (Close cid) = on_close st cid"
| "step uuidv4 st (Message m) = on_message st m"
| "step uuidv4 st (SendRequest act pl) = snd (sendRequest uuidv4 st act pl)"
| "step uuidv4 st (TimerFires h) = fire_timer st h"
| "step uuidv4 st PingAll = pingAll st"
| "step uuidv4 st (SocketState cid rs) = socket_state st cid rs"
| "step uuidv4 st (Advance d) = st\<lparr>now := now st + d\<rparr>"

fun run :: "(nat \<Rightarrow> string) \<Rightarrow> manager \<Rightarrow> event list \<Rightarrow> manager" where
  "run uuidv4 st [] = st"
| "run uuidv4 st (e # es) = run uuidv4 (step uuidv4 st e) es"

text \<open>A collision-free identifier supply, for evaluating the model on concrete traces.\<close>

definition uuid0 :: "nat \<Rightarrow> string" where
  "uuid0 n = ''id-'' @ replicate n (CHR ''x'')"


section \<open>The reconnecting transport client (plugin side)\<close>

text \<open>
  The configuration \<^verbatim>\<open>initializeConnection\<close> (src/index.tsx of the plugin) passes to
  \<^verbatim>\<open>new WebSocketClient({...})\<close>.
\<close>

record ReconnectConfig =
  maxReconnectAttempts :: nat
  initialReconnectDelay :: nat
  maxReconnectDelay :: nat

definition wsClient_config :: ReconnectConfig where
  "wsClient_config =
     \<lparr>maxReconnectAttempts = 10, initialReconnectDelay = 1000, maxReconnectDelay = 30000\<rparr>"

datatype client_status = S_disconnected | S_connecting | S_connected

text \<open>
  Modelled from the spec: the class \<^verbatim>\<open>WebSocketClient\<close> (bridge/websocket-client.ts) is
  not among the sources. Its Reconnect State per section 3 of the specification: the
  status, the attempt count, the current backoff delay; in addition the delay of the
  reconnect that is scheduled and has not fired yet, and whether \<^verbatim>\<open>disconnect()\<close> has
  switched automatic reconnection off.
\<close>

record client =
  status :: client_status
  attempts :: nat
  delay :: nat
  scheduled :: "nat option"
  stopped :: bool

text \<open>
  Modelled from the spec: the state of a new \<^verbatim>\<open>WebSocketClient\<close> (absent source), which
  starts disconnected with the attempt count and the delay at their initial values.
\<close>

definition client_new :: "ReconnectConfig \<Rightarrow> client" where
  "client_new cfg =
     \<lparr>status = S_disconnected, attempts = 0, delay = initialReconnectDelay cfg,
      scheduled = None, stopped = False\<rparr>"

text \<open>
  Modelled from the spec: \<^verbatim>\<open>connect()\<close> of the absent \<^verbatim>\<open>WebSocketClient\<close>, section
  4.2: idempotent entry into connecting; it re-enables automatic reconnection after a
  \<^verbatim>\<open>disconnect()\<close>.
\<close>

definition connect :: "client \<Rightarrow> client" where
  "connect c =
     (if status c = S_disconnected then c\<lparr>status := S_connecting, stopped := False\<rparr> else c)"

text \<open>
  Modelled from the spec: the open handler of the absent \<^verbatim>\<open>WebSocketClient\<close>, section
  4.2: on successful open the client is connected and the attempt count and the backoff
  delay are reset to their initial values.
\<close>

definition client_on_open :: "ReconnectConfig \<Rightarrow> client \<Rightarrow> client" where
  "client_on_open cfg c =
     c\<lparr>status := S_connected, attempts := 0, delay := initialReconnectDelay cfg\<rparr>"

text \<open>
  Modelled from the spec: the close/error handler of the absent \<^verbatim>\<open>WebSocketClient\<close>,
  section 4.2: while connected or connecting the client becomes disconnected and, if the
  attempt count is below the configured maximum, schedules a reconnect after the current
  backoff delay, then doubles the delay capped at the configured maximum; the attempt
  count increments on every scheduled attempt.
\<close>

definition client_on_close :: "ReconnectConfig \<Rightarrow> client \<Rightarrow> client" where
  "client_on_close cfg c =
     (if status c = S_connected \<or> status c = S_connecting
      then (let c1 = c\<lparr>status := S_disconnected\<rparr>
            in if attempts c1 < maxReconnectAttempts cfg \<and> \<not> stopped c1
               then c1\<lparr>scheduled := Some (delay c1),
                       delay := min (delay c1 * 2) (maxReconnectDelay cfg),
                       attempts := Suc (attempts c1)\<rparr>
               else c1)
      else c)"

text \<open>
  Modelled from the spec: the scheduled reconnect of the absent \<^verbatim>\<open>WebSocketClient\<close>
  firing: the automatic step from disconnected to connecting.
\<close>

definition reconnect_fires :: "client \<Rightarrow> client" where
  "reconnect_fires c =
     (case scheduled c of
        None \<Rightarrow> c
      | Some d \<Rightarrow> connect (c\<lparr>scheduled := None\<rparr>))"

text \<open>
  Modelled from the spec: \<^verbatim>\<open>disconnect()\<close> of the absent \<^verbatim>\<open>WebSocketClient\<close>, section
  4.2: closes the socket, cancels any scheduled reconnect and prevents further automatic
  reconnection until \<^verbatim>\<open>connect()\<close> is called again.
\<close>

definition disconnect :: "client \<Rightarrow> client" where
  "disconnect c = c\<lparr>status := S_disconnected, scheduled := None, stopped := True\<rparr>"

text \<open>
  One failed attempt followed by the automatic retry: the socket of a connecting client
  closes, and the reconnect that this schedules (if any) fires.
\<close>

definition failed_attempt :: "ReconnectConfig \<Rightarrow> client \<Rightarrow> client" where
  "failed_attempt cfg c = reconnect_fires (client_on_close cfg c)"

section \<open>Predicates used to state the properties\<close>

text \<open>
  The condition \<^verbatim>\<open>ws && ws.readyState === WebSocket.OPEN\<close> of \<^verbatim>\<open>sendRequest\<close>.
\<close>

definition writable :: "manager \<Rightarrow> bool" where
  "writable st = (case active_socket st of None \<Rightarrow> False | Some ws \<Rightarrow> readyState ws = OPEN_ws)"

text \<open>The active identifier, when there is one, is a key of \<^verbatim>\<open>connections\<close>.\<close>

definition active_tracked :: "manager \<Rightarrow> bool" where
  "active_tracked st =
     (case activeConnectionId st of
        None \<Rightarrow> True
      | Some a \<Rightarrow> a \<in> set (map fst (connections st)))"

text \<open>
  Bookkeeping of calls: an armed timer belongs to a call already made that has seen no
  outcome and is due within the timeout; a call already made with no armed timer has seen
  exactly one outcome; a call not yet made has seen none; an entry of the pending table
  holds the continuations and the timer of one call, and that timer is armed and carries
  the entry's key.
\<close>

definition calls_ok :: "manager \<Rightarrow> bool" where
  "calls_ok st \<longleftrightarrow>
     (\<forall>c t. map_of (timers st) c = Some t \<longrightarrow>
        c < next_call st \<and> outcomes_of st c = [] \<and> due t \<le> now st + REQUEST_TIMEOUT_MS) \<and>
     (\<forall>c. c < next_call st \<longrightarrow> map_of (timers st) c = None \<longrightarrow> length (outcomes_of st c) = 1) \<and>
     (\<forall>c. next_call st \<le> c \<longrightarrow> outcomes_of st c = []) \<and>
     (\<forall>k p. map_of (pendingRequests st) k = Some p \<longrightarrow>
        resolve p = timeout p \<and> reject p = timeout p \<and>
        (\<exists>t. map_of (timers st) (timeout p) = Some t \<and> t_requestId t = k))"

text \<open>
  With identifiers that never repeat: every armed timer still has its entry in the pending
  table, and every key of the table was drawn from the supply.
\<close>

definition entries_ok :: "(nat \<Rightarrow> string) \<Rightarrow> manager \<Rightarrow> bool" where
  "entries_ok uuidv4 st \<longleftrightarrow>
     (\<forall>c t. map_of (timers st) c = Some t \<longrightarrow>
        map_of (pendingRequests st) (t_requestId t) = Some \<lparr>resolve = c, reject = c, timeout = c\<rparr>) \<and>
     (\<forall>k p. map_of (pendingRequests st) k = Some p \<longrightarrow> (\<exists>n < uuid_calls st. k = uuidv4 n))"

text \<open>
  What \<^verbatim>\<open>handleResponse\<close> passes to the continuation of the call a response matches.
\<close>

definition reply_outcome :: "BridgeResponse \<Rightarrow> outcome" where
  "reply_outcome r =
     (if truthy_error (error r) then Rejected (the (error r)) else Resolved (result r))"

text \<open>
  An event that is neither the firing of the timer of call \<open>c\<close> nor a response carrying
  the identifier \<open>rid\<close>.
\<close>

definition leaves_call :: "call_id \<Rightarrow> string \<Rightarrow> event \<Rightarrow> bool" where
  "leaves_call c rid e =
     (case e of
        TimerFires h \<Rightarrow> h \<noteq> c
      | Message (Some r) \<Rightarrow> id_res r \<noteq> rid
      | _ \<Rightarrow> True)"

text \<open>
  An event that cannot take the active role away from the connection tracked under \<open>k\<close>:
  anything but the close event of that connection, and a registration only when \<open>k\<close> is
  not the empty string (\<^verbatim>\<open>addConnection\<close> replaces a falsy active identifier).
\<close>

definition keeps_active :: "string \<Rightarrow> event \<Rightarrow> bool" where
  "keeps_active k e =
     (case e of
        Close c \<Rightarrow> c \<noteq> k
      | AddConnection ws \<Rightarrow> k \<noteq> []
      | _ \<Rightarrow> True)"

text \<open>Sockets for evaluating the model on concrete traces.\<close>

definition ws_open :: WebSocket where
  "ws_open = \<lparr>readyState = OPEN_ws, sent = []\<rparr>"

definition ws_closing :: WebSocket where
  "ws_closing = \<lparr>readyState = CLOSING, sent = []\<rparr>"

section \<open>Effect of each operation on the fields\<close>


lemma TIMEOUT_MESSAGE_eq: "TIMEOUT_MESSAGE = ''Request timeout after 30000ms''"
  by (simp add: TIMEOUT_MESSAGE_def REQUEST_TIMEOUT_MS_def digit_char_def show_nat.simps)

lemmas model_defs = init_def uuid0_def addConnection_def sendRequest_def on_message_def
  handleResponse_def fire_timer_def on_close_def pingAll_def socket_state_def
  Let_def falsy_id_def console_write_def socket_send_def ws_send_def hasActiveConnection_def
  settle_def active_socket_def active_send_def clearTimeout_def truthy_error_def
  timeout_callback_def outcomes_of_def ws_open_def ws_closing_def

subsection \<open>keys\<close>

lemma has_key_iff: "k \<in> fst ` set al \<longleftrightarrow> map_of al k \<noteq> None"
  by (simp add: map_of_eq_None_iff)

lemma keys_pingAll: "map fst (connections (pingAll st)) = map fst (connections st)"
  by (induction "connections st") (auto simp: pingAll_def split_beta)

lemma outcomes_of_settle:
  "outcomes_of (settle c out st) c' = outcomes_of st c' @ (if c' = c then [out] else [])"
  by (simp add: outcomes_of_def settle_def)

subsection \<open>on_close\<close>

lemma on_close_frame:
  "pendingRequests (on_close st cid) = pendingRequests st"
  "timers (on_close st cid) = timers st"
  "outcomes (on_close st cid) = outcomes st"
  "next_call (on_close st cid) = next_call st"
  "uuid_calls (on_close st cid) = uuid_calls st"
  "now (on_close st cid) = now st"
  by (simp_all add: on_close_def Let_def console_write_def)

lemma on_close_connections:
  "connections (on_close st cid) = AList.delete cid (connections st)"
  by (simp add: on_close_def Let_def console_write_def)

lemma on_close_active:
  "activeConnectionId (on_close st cid) =
     (if activeConnectionId st = Some cid
      then (case AList.delete cid (connections st) of [] \<Rightarrow> None | (k, ws) # _ \<Rightarrow> Some k)
      else activeConnectionId st)"
  by (simp add: on_close_def Let_def console_write_def split: list.splits)

subsection \<open>addConnection\<close>

lemma addConnection_frame:
  "pendingRequests (snd (addConnection u st ws)) = pendingRequests st"
  "timers (snd (addConnection u st ws)) = timers st"
  "outcomes (snd (addConnection u st ws)) = outcomes st"
  "next_call (snd (addConnection u st ws)) = next_call st"
  "uuid_calls (snd (addConnection u st ws)) = Suc (uuid_calls st)"
  "now (snd (addConnection u st ws)) = now st"
  by (simp_all add: addConnection_def Let_def console_write_def socket_send_def)

lemma addConnection_keys:
  "fst ` set (connections (snd (addConnection u st ws))) =
     insert (u (uuid_calls st)) (fst ` set (connections st))"
  by (simp add: addConnection_def Let_def console_write_def socket_send_def
      AList.dom_map_entry AList.dom_update)

lemma addConnection_active:
  "activeConnectionId (snd (addConnection u st ws)) =
     (if falsy_id (activeConnectionId st) then Some (u (uuid_calls st)) else activeConnectionId st)"
  by (simp add: addConnection_def Let_def console_write_def socket_send_def)

subsection \<open>handleResponse\<close>

lemma handleResponse_unknown:
  "map_of (pendingRequests st) (id_res r) = None \<Longrightarrow>
   handleResponse st r =
     st\<lparr>console := console st @
        [(WARN, ''[plugin] received response for unknown request: '' @ id_res r)]\<rparr>"
  by (simp add: handleResponse_def console_write_def)

lemma handleResponse_frame:
  "connections (handleResponse st r) = connections st"
  "activeConnectionId (handleResponse st r) = activeConnectionId st"
  "next_call (handleResponse st r) = next_call st"
  "uuid_calls (handleResponse st r) = uuid_calls st"
  "now (handleResponse st r) = now st"
  by (simp_all add: handleResponse_def Let_def console_write_def clearTimeout_def settle_def
      split: option.splits)

lemma handleResponse_known:
  assumes "map_of (pendingRequests st) (id_res r) = Some p"
  shows "timers (handleResponse st r) = AList.delete (timeout p) (timers st)"
    and "pendingRequests (handleResponse st r) = AList.delete (id_res r) (pendingRequests st)"
    and "outcomes (handleResponse st r) = outcomes st @
           [if truthy_error (error r) then (reject p, Rejected (the (error r)))
            else (resolve p, Resolved (result r))]"
  using assms
  by (simp_all add: handleResponse_def Let_def console_write_def clearTimeout_def settle_def)

subsection \<open>fire_timer\<close>

lemma fire_timer_frame:
  "connections (fire_timer st h) = connections st"
  "activeConnectionId (fire_timer st h) = activeConnectionId st"
  "next_call (fire_timer st h) = next_call st"
  "uuid_calls (fire_timer st h) = uuid_calls st"
  "now (fire_timer st h) = now st"
  by (simp_all add: fire_timer_def timeout_callback_def settle_def split: option.splits)

lemma fire_timer_idle:
  "map_of (timers st) h = None \<or> (\<exists>t. map_of (timers st) h = Some t \<and> now st < due t) \<Longrightarrow>
   fire_timer st h = st"
  by (auto simp: fire_timer_def)

lemma fire_timer_due:
  assumes "map_of (timers st) h = Some t" "due t \<le> now st"
  shows "timers (fire_timer st h) = AList.delete h (timers st)"
    and "pendingRequests (fire_timer st h) = AList.delete (t_requestId t) (pendingRequests st)"
    and "outcomes (fire_timer st h) = outcomes st @ [(h, Rejected TIMEOUT_MESSAGE)]"
  using assms by (simp_all add: fire_timer_def timeout_callback_def settle_def)

subsection \<open>sendRequest\<close>

lemma hasActiveConnection_upd [simp]:
  "hasActiveConnection (st\<lparr>next_call := a\<rparr>) = hasActiveConnection st"
  "hasActiveConnection (st\<lparr>uuid_calls := b\<rparr>) = hasActiveConnection st"
  "hasActiveConnection (st\<lparr>timers := c\<rparr>) = hasActiveConnection st"
  "hasActiveConnection (st\<lparr>pendingRequests := d\<rparr>) = hasActiveConnection st"
  "hasActiveConnection (st\<lparr>outcomes := e\<rparr>) = hasActiveConnection st"
  "hasActiveConnection (st\<lparr>console := f\<rparr>) = hasActiveConnection st"
  "hasActiveConnection (st\<lparr>now := g\<rparr>) = hasActiveConnection st"
  by (simp_all add: hasActiveConnection_def split: option.splits)

lemma active_socket_upd [simp]:
  "active_socket (st\<lparr>next_call := a\<rparr>) = active_socket st"
  "active_socket (st\<lparr>uuid_calls := b\<rparr>) = active_socket st"
  "active_socket (st\<lparr>timers := c\<rparr>) = active_socket st"
  "active_socket (st\<lparr>pendingRequests := d\<rparr>) = active_socket st"
  "active_socket (st\<lparr>outcomes := e\<rparr>) = active_socket st"
  "active_socket (st\<lparr>console := f\<rparr>) = active_socket st"
  "active_socket (st\<lparr>now := g\<rparr>) = active_socket st"
  by (simp_all add: active_socket_def split: option.splits)

lemma sendRequest_fst: "fst (sendRequest u st a p) = next_call st"
  by (simp add: sendRequest_def Let_def split: option.splits)

lemma sendRequest_frame:
  "activeConnectionId (snd (sendRequest u st a p)) = activeConnectionId st"
  "next_call (snd (sendRequest u st a p)) = Suc (next_call st)"
  "now (snd (sendRequest u st a p)) = now st"
  "fst ` set (connections (snd (sendRequest u st a p))) = fst ` set (connections st)"
  by (simp_all add: sendRequest_def Let_def settle_def clearTimeout_def console_write_def
      active_send_def socket_send_def AList.dom_map_entry
      split: option.splits)

lemma sendRequest_no_connection:
  assumes "\<not> hasActiveConnection st"
  shows "sendRequest u st a p =
     (next_call st, st\<lparr>next_call := Suc (next_call st),
                        outcomes := outcomes st @ [(next_call st, Rejected NO_PLUGIN_MESSAGE)]\<rparr>)"
  using assms by (simp add: sendRequest_def Let_def settle_def)

lemma sendRequest_sent:
  assumes "hasActiveConnection st" "writable st"
  shows "timers (snd (sendRequest u st a p)) =
           AList.update (next_call st)
             \<lparr>t_requestId = u (uuid_calls st), due = now st + REQUEST_TIMEOUT_MS\<rparr> (timers st)"
    and "pendingRequests (snd (sendRequest u st a p)) =
           AList.update (u (uuid_calls st))
             \<lparr>resolve = next_call st, reject = next_call st, timeout = next_call st\<rparr>
             (pendingRequests st)"
    and "outcomes (snd (sendRequest u st a p)) = outcomes st"
    and "uuid_calls (snd (sendRequest u st a p)) = Suc (uuid_calls st)"
  using assms
  by (auto simp: sendRequest_def Let_def settle_def clearTimeout_def console_write_def
      active_send_def socket_send_def writable_def
      split: option.splits)

lemma sendRequest_not_ready:
  assumes "hasActiveConnection st" "\<not> writable st"
  shows "timers (snd (sendRequest u st a p)) = AList.delete (next_call st) (timers st)"
    and "pendingRequests (snd (sendRequest u st a p)) =
           AList.delete (u (uuid_calls st)) (pendingRequests st)"
    and "outcomes (snd (sendRequest u st a p)) =
           outcomes st @ [(next_call st, Rejected NOT_READY_MESSAGE)]"
    and "uuid_calls (snd (sendRequest u st a p)) = Suc (uuid_calls st)"
    and "connections (snd (sendRequest u st a p)) = connections st"
  using assms
  by (auto simp: sendRequest_def Let_def settle_def clearTimeout_def console_write_def
      active_send_def socket_send_def writable_def
      AList.delete_update_same
      split: option.splits)

section \<open>Invariants of the bookkeeping\<close>

lemma outcomes_of_append:
  "outcomes st' = outcomes st @ [(c0, x)] \<Longrightarrow>
   outcomes_of st' c = outcomes_of st c @ (if c = c0 then [x] else [])"
  by (simp add: outcomes_of_def)

lemma outcomes_of_same: "outcomes st' = outcomes st \<Longrightarrow> outcomes_of st' c = outcomes_of st c"
  by (simp add: outcomes_of_def)

lemma calls_ok_cong:
  assumes "timers st' = timers st" "outcomes st' = outcomes st"
    "pendingRequests st' = pendingRequests st" "next_call st' = next_call st" "now st' = now st"
  shows "calls_ok st' = calls_ok st"
  using assms by (simp add: calls_ok_def outcomes_of_def)

lemma entries_ok_cong:
  assumes "timers st' = timers st" "pendingRequests st' = pendingRequests st"
    "uuid_calls st' = uuid_calls st"
  shows "entries_ok u st' = entries_ok u st"
  using assms by (simp add: entries_ok_def)

lemma calls_ok_init: "calls_ok init"
  by (simp add: calls_ok_def init_def outcomes_of_def)

lemma entries_ok_init: "entries_ok u init"
  by (simp add: entries_ok_def init_def)

lemma calls_ok_handleResponse:
  assumes "calls_ok st"
  shows "calls_ok (handleResponse st r)"
proof (cases "map_of (pendingRequests st) (id_res r)")
  case None
  then show ?thesis
    using assms by (simp add: handleResponse_unknown calls_ok_def outcomes_of_def)
next
  case (Some p)
  from assms Some obtain t where
    p: "resolve p = timeout p" "reject p = timeout p"
    and t: "map_of (timers st) (timeout p) = Some t" "t_requestId t = id_res r"
    unfolding calls_ok_def by blast
  let ?st' = "handleResponse st r"
  have T: "map_of (timers ?st') = (map_of (timers st))(timeout p := None)"
    by (simp add: handleResponse_known(1)[OF Some] AList.delete_conv')
  have P: "map_of (pendingRequests ?st') = (map_of (pendingRequests st))(id_res r := None)"
    by (simp add: handleResponse_known(2)[OF Some] AList.delete_conv')
  have "\<exists>x. outcomes ?st' = outcomes st @ [(timeout p, x)]"
    by (simp add: handleResponse_known(3)[OF Some] p)
  then obtain x where O: "\<And>c. outcomes_of ?st' c = outcomes_of st c @ (if c = timeout p then [x] else [])"
    using outcomes_of_append by blast
  have N: "next_call ?st' = next_call st" "now ?st' = now st"
    by (simp_all add: handleResponse_frame)
  have tp: "timeout p < next_call st" "outcomes_of st (timeout p) = []"
    using assms t by (auto simp: calls_ok_def)
  have uniq: "\<And>k pa. map_of (pendingRequests st) k = Some pa \<Longrightarrow> timeout pa = timeout p \<Longrightarrow> k = id_res r"
    using assms t by (fastforce simp: calls_ok_def)
  show ?thesis
    unfolding calls_ok_def T P O N
    using assms tp uniq unfolding calls_ok_def
    by (auto split: if_splits)
qed

lemma calls_ok_fire_timer:
  assumes "calls_ok st"
  shows "calls_ok (fire_timer st h)"
proof (cases "\<exists>t. map_of (timers st) h = Some t \<and> due t \<le> now st")
  case False
  then have "fire_timer st h = st"
    by (intro fire_timer_idle) (cases "map_of (timers st) h"; auto)
  then show ?thesis using assms by simp
next
  case True
  then obtain t where t: "map_of (timers st) h = Some t" "due t \<le> now st" by blast
  let ?st' = "fire_timer st h"
  have T: "map_of (timers ?st') = (map_of (timers st))(h := None)"
    by (simp add: fire_timer_due(1)[OF t] AList.delete_conv')
  have P: "map_of (pendingRequests ?st') = (map_of (pendingRequests st))(t_requestId t := None)"
    by (simp add: fire_timer_due(2)[OF t] AList.delete_conv')
  have O: "\<And>c. outcomes_of ?st' c = outcomes_of st c @ (if c = h then [Rejected TIMEOUT_MESSAGE] else [])"
    using fire_timer_due(3)[OF t] by (rule outcomes_of_append)
  have N: "next_call ?st' = next_call st" "now ?st' = now st"
    by (simp_all add: fire_timer_frame)
  have tp: "h < next_call st" "outcomes_of st h = []"
    using assms t by (auto simp: calls_ok_def)
  have uniq: "\<And>k pa. map_of (pendingRequests st) k = Some pa \<Longrightarrow> timeout pa = h \<Longrightarrow> k = t_requestId t"
    using assms t by (fastforce simp: calls_ok_def)
  show ?thesis
    unfolding calls_ok_def T P O N
    using assms tp uniq unfolding calls_ok_def
    by (auto split: if_splits)
qed

lemma calls_ok_sendRequest:
  assumes "calls_ok st"
  shows "calls_ok (snd (sendRequest u st a p))"
proof -
  let ?st' = "snd (sendRequest u st a p)"
  have N: "next_call ?st' = Suc (next_call st)" "now ?st' = now st"
    by (simp_all add: sendRequest_frame)
  have "\<And>t. map_of (timers st) (next_call st) = Some t \<Longrightarrow> False"
    using assms by (fastforce simp: calls_ok_def)
  then have fresh: "map_of (timers st) (next_call st) = None" "outcomes_of st (next_call st) = []"
    using assms by (cases "map_of (timers st) (next_call st)"; auto simp: calls_ok_def)+
  have old: "\<And>k pa. map_of (pendingRequests st) k = Some pa \<Longrightarrow> timeout pa \<noteq> next_call st"
    using assms by (fastforce simp: calls_ok_def)
  consider (none) "\<not> hasActiveConnection st"
    | (sent) "hasActiveConnection st" "writable st"
    | (not_ready) "hasActiveConnection st" "\<not> writable st" by blast
  then show ?thesis
  proof cases
    case none
    have O: "\<And>c. outcomes_of ?st' c = outcomes_of st c @ (if c = next_call st then [Rejected NO_PLUGIN_MESSAGE] else [])"
      by (rule outcomes_of_append) (simp add: sendRequest_no_connection[OF none])
    have TP: "timers ?st' = timers st" "pendingRequests ?st' = pendingRequests st"
      by (simp_all add: sendRequest_no_connection[OF none])
    show ?thesis
      unfolding calls_ok_def TP O N
      using assms fresh old unfolding calls_ok_def
      by (auto split: if_splits simp: less_Suc_eq)
  next
    case sent
    have T: "map_of (timers ?st') = (map_of (timers st))(next_call st \<mapsto>
               \<lparr>t_requestId = u (uuid_calls st), due = now st + REQUEST_TIMEOUT_MS\<rparr>)"
      by (simp add: sendRequest_sent(1)[OF sent] AList.update_conv')
    have P: "map_of (pendingRequests ?st') = (map_of (pendingRequests st))(u (uuid_calls st) \<mapsto>
               \<lparr>resolve = next_call st, reject = next_call st, timeout = next_call st\<rparr>)"
      by (simp add: sendRequest_sent(2)[OF sent] AList.update_conv')
    have O: "\<And>c. outcomes_of ?st' c = outcomes_of st c"
      by (rule outcomes_of_same) (simp add: sendRequest_sent(3)[OF sent])
    show ?thesis
      unfolding calls_ok_def T P O N
      using assms fresh old unfolding calls_ok_def
      by (auto split: if_splits simp: less_Suc_eq)
  next
    case not_ready
    have T: "map_of (timers ?st') = (map_of (timers st))(next_call st := None)"
      by (simp add: sendRequest_not_ready(1)[OF not_ready] AList.delete_conv')
    have P: "map_of (pendingRequests ?st') = (map_of (pendingRequests st))(u (uuid_calls st) := None)"
      by (simp add: sendRequest_not_ready(2)[OF not_ready] AList.delete_conv')
    have O: "\<And>c. outcomes_of ?st' c = outcomes_of st c @ (if c = next_call st then [Rejected NOT_READY_MESSAGE] else [])"
      by (rule outcomes_of_append) (simp add: sendRequest_not_ready(3)[OF not_ready])
    show ?thesis
      unfolding calls_ok_def T P O N
      using assms fresh old unfolding calls_ok_def
      by (auto split: if_splits simp: less_Suc_eq)
  qed
qed

lemma pingAll_frame:
  "pendingRequests (pingAll st) = pendingRequests st"
  "timers (pingAll st) = timers st"
  "outcomes (pingAll st) = outcomes st"
  "next_call (pingAll st) = next_call st"
  "uuid_calls (pingAll st) = uuid_calls st"
  "now (pingAll st) = now st"
  "activeConnectionId (pingAll st) = activeConnectionId st"
  by (simp_all add: pingAll_def)

lemma socket_state_frame:
  "pendingRequests (socket_state st cid rs) = pendingRequests st"
  "timers (socket_state st cid rs) = timers st"
  "outcomes (socket_state st cid rs) = outcomes st"
  "next_call (socket_state st cid rs) = next_call st"
  "uuid_calls (socket_state st cid rs) = uuid_calls st"
  "now (socket_state st cid rs) = now st"
  "activeConnectionId (socket_state st cid rs) = activeConnectionId st"
  "fst ` set (connections (socket_state st cid rs)) = fst ` set (connections st)"
  by (simp_all add: socket_state_def AList.dom_map_entry)

lemma calls_ok_console [simp]: "calls_ok (console_write l s st) = calls_ok st"
  by (simp add: calls_ok_def outcomes_of_def console_write_def)

lemma entries_ok_console [simp]: "entries_ok u (console_write l s st) = entries_ok u st"
  by (simp add: entries_ok_def console_write_def)

lemma calls_ok_advance:
  assumes "calls_ok st"
  shows "calls_ok (st\<lparr>now := now st + d\<rparr>)"
proof -
  have "\<And>c t. map_of (timers st) c = Some t \<Longrightarrow> due t \<le> now st + d + REQUEST_TIMEOUT_MS"
    using assms by (fastforce simp: calls_ok_def)
  then show ?thesis
    using assms unfolding calls_ok_def outcomes_of_def by auto
qed

lemma calls_ok_step:
  assumes "calls_ok st"
  shows "calls_ok (step u st e)"
proof (cases e)
  case (AddConnection ws)
  then show ?thesis using assms by (simp add: calls_ok_cong[OF addConnection_frame(2,3,1,4,6)])
next
  case (Close cid)
  then show ?thesis using assms by (simp add: calls_ok_cong[OF on_close_frame(2,3,1,4,6)])
next
  case (Message m)
  then show ?thesis using assms
    by (cases m)
      (simp_all add: on_message_def calls_ok_handleResponse)
next
  case (SendRequest a p)
  then show ?thesis using assms by (simp add: calls_ok_sendRequest)
next
  case (TimerFires h)
  then show ?thesis using assms by (simp add: calls_ok_fire_timer)
next
  case PingAll
  then show ?thesis using assms by (simp add: calls_ok_cong[OF pingAll_frame(2,3,1,4,6)])
next
  case (SocketState cid rs)
  then show ?thesis using assms by (simp add: calls_ok_cong[OF socket_state_frame(2,3,1,4,6)])
next
  case (Advance d)
  then show ?thesis using assms by (simp add: calls_ok_advance)
qed

lemma calls_ok_run: "calls_ok st \<Longrightarrow> calls_ok (run u st evs)"
  by (induction evs arbitrary: st) (simp_all add: calls_ok_step)

lemma entries_ok_handleResponse:
  assumes "entries_ok u st"
  shows "entries_ok u (handleResponse st r)"
proof (cases "map_of (pendingRequests st) (id_res r)")
  case None
  then show ?thesis
    using assms by (simp add: handleResponse_unknown entries_ok_def)
next
  case (Some p)
  let ?st' = "handleResponse st r"
  have T: "map_of (timers ?st') = (map_of (timers st))(timeout p := None)"
    by (simp add: handleResponse_known(1)[OF Some] AList.delete_conv')
  have P: "map_of (pendingRequests ?st') = (map_of (pendingRequests st))(id_res r := None)"
    by (simp add: handleResponse_known(2)[OF Some] AList.delete_conv')
  have U: "uuid_calls ?st' = uuid_calls st"
    by (simp add: handleResponse_frame)
  have other: "\<And>c t. map_of (timers st) c = Some t \<Longrightarrow> c \<noteq> timeout p \<Longrightarrow> t_requestId t \<noteq> id_res r"
    using assms Some by (fastforce simp: entries_ok_def)
  show ?thesis
    unfolding entries_ok_def T P U
    using assms other unfolding entries_ok_def
    by (auto split: if_splits)
qed

lemma entries_ok_fire_timer:
  assumes "entries_ok u st"
  shows "entries_ok u (fire_timer st h)"
proof (cases "\<exists>t. map_of (timers st) h = Some t \<and> due t \<le> now st")
  case False
  then have "fire_timer st h = st"
    by (intro fire_timer_idle) (cases "map_of (timers st) h"; auto)
  then show ?thesis using assms by simp
next
  case True
  then obtain t where t: "map_of (timers st) h = Some t" "due t \<le> now st" by blast
  let ?st' = "fire_timer st h"
  have T: "map_of (timers ?st') = (map_of (timers st))(h := None)"
    by (simp add: fire_timer_due(1)[OF t] AList.delete_conv')
  have P: "map_of (pendingRequests ?st') = (map_of (pendingRequests st))(t_requestId t := None)"
    by (simp add: fire_timer_due(2)[OF t] AList.delete_conv')
  have U: "uuid_calls ?st' = uuid_calls st"
    by (simp add: fire_timer_frame)
  have other: "t_requestId t' \<noteq> t_requestId t"
    if "map_of (timers st) c = Some t'" "c \<noteq> h" for c t'
  proof
    assume eq: "t_requestId t' = t_requestId t"
    have "map_of (pendingRequests st) (t_requestId t') = Some \<lparr>resolve = c, reject = c, timeout = c\<rparr>"
      using assms that(1) unfolding entries_ok_def by blast
    moreover have "map_of (pendingRequests st) (t_requestId t) = Some \<lparr>resolve = h, reject = h, timeout = h\<rparr>"
      using assms t(1) unfolding entries_ok_def by blast
    ultimately show False using eq that(2) by simp
  qed
  show ?thesis
    unfolding entries_ok_def T P U
    using assms other unfolding entries_ok_def
    by (auto split: if_splits)
qed

lemma entries_ok_fresh:
  assumes "inj u" "entries_ok u st"
  shows "map_of (pendingRequests st) (u (uuid_calls st)) = None"
proof (cases "map_of (pendingRequests st) (u (uuid_calls st))")
  case (Some p)
  with assms(2) obtain n where "n < uuid_calls st" "u (uuid_calls st) = u n"
    unfolding entries_ok_def by blast
  with assms(1) show ?thesis by (auto dest: injD)
qed simp

lemma entries_ok_sendRequest:
  assumes "inj u" "calls_ok st" "entries_ok u st"
  shows "entries_ok u (snd (sendRequest u st a p))"
proof -
  let ?st' = "snd (sendRequest u st a p)"
  note fresh = entries_ok_fresh[OF assms(1,3)]
  have other: "\<And>c t. map_of (timers st) c = Some t \<Longrightarrow> t_requestId t \<noteq> u (uuid_calls st)"
    using assms(3) fresh by (fastforce simp: entries_ok_def)
  have lt: "\<And>c t. map_of (timers st) c = Some t \<Longrightarrow> c \<noteq> next_call st"
    using assms(2) by (fastforce simp: calls_ok_def)
  consider (none) "\<not> hasActiveConnection st"
    | (sent) "hasActiveConnection st" "writable st"
    | (not_ready) "hasActiveConnection st" "\<not> writable st" by blast
  then show ?thesis
  proof cases
    case none
    show ?thesis
      using assms(3) by (simp add: sendRequest_no_connection[OF none] entries_ok_def)
  next
    case sent
    have T: "map_of (timers ?st') = (map_of (timers st))(next_call st \<mapsto>
               \<lparr>t_requestId = u (uuid_calls st), due = now st + REQUEST_TIMEOUT_MS\<rparr>)"
      by (simp add: sendRequest_sent(1)[OF sent] AList.update_conv')
    have P: "map_of (pendingRequests ?st') = (map_of (pendingRequests st))(u (uuid_calls st) \<mapsto>
               \<lparr>resolve = next_call st, reject = next_call st, timeout = next_call st\<rparr>)"
      by (simp add: sendRequest_sent(2)[OF sent] AList.update_conv')
    have U: "uuid_calls ?st' = Suc (uuid_calls st)"
      by (simp add: sendRequest_sent(4)[OF sent])
    show ?thesis
      unfolding entries_ok_def T P U
      using assms(3) other lt unfolding entries_ok_def
      by (auto split: if_splits simp: less_Suc_eq)
  next
    case not_ready
    have T: "map_of (timers ?st') = (map_of (timers st))(next_call st := None)"
      by (simp add: sendRequest_not_ready(1)[OF not_ready] AList.delete_conv')
    have P: "map_of (pendingRequests ?st') = (map_of (pendingRequests st))(u (uuid_calls st) := None)"
      by (simp add: sendRequest_not_ready(2)[OF not_ready] AList.delete_conv')
    have U: "uuid_calls ?st' = Suc (uuid_calls st)"
      by (simp add: sendRequest_not_ready(4)[OF not_ready])
    show ?thesis
      unfolding entries_ok_def T P U
      using assms(3) other lt unfolding entries_ok_def
      by (auto split: if_splits simp: less_Suc_eq)
  qed
qed

lemma entries_ok_more_ids:
  assumes "entries_ok u st" "timers st' = timers st" "pendingRequests st' = pendingRequests st"
    "uuid_calls st' = Suc (uuid_calls st)"
  shows "entries_ok u st'"
  using assms unfolding entries_ok_def by (auto simp: less_Suc_eq)

lemma entries_ok_step:
  assumes "inj u" "calls_ok st" "entries_ok u st"
  shows "entries_ok u (step u st e)"
proof (cases e)
  case (AddConnection ws)
  then show ?thesis
    using entries_ok_more_ids[OF assms(3) addConnection_frame(2,1,5)] by simp
next
  case (Close cid)
  then show ?thesis using assms by (simp add: entries_ok_cong[OF on_close_frame(2,1,5)])
next
  case (Message m)
  then show ?thesis using assms
    by (cases m)
      (simp_all add: on_message_def entries_ok_handleResponse)
next
  case (SendRequest a p)
  then show ?thesis using assms by (simp add: entries_ok_sendRequest)
next
  case (TimerFires h)
  then show ?thesis using assms by (simp add: entries_ok_fire_timer)
next
  case PingAll
  then show ?thesis using assms by (simp add: entries_ok_cong[OF pingAll_frame(2,1,5)])
next
  case (SocketState cid rs)
  then show ?thesis using assms by (simp add: entries_ok_cong[OF socket_state_frame(2,1,5)])
next
  case (Advance d)
  then show ?thesis using assms by (simp add: entries_ok_def)
qed

lemma entries_ok_run:
  "inj u \<Longrightarrow> calls_ok st \<Longrightarrow> entries_ok u st \<Longrightarrow> entries_ok u (run u st evs)"
  by (induction evs arbitrary: st) (simp_all add: calls_ok_step entries_ok_step)

section \<open>Properties of the connection manager\<close>

lemma inj_uuid0: "inj uuid0"
  by (rule injI) (simp add: uuid0_def replicate_eq_replicate)

text \<open>
  C8: the close handler leaves the pending table, the armed timers and the outcomes as
  they are, whichever connection closes; a response or a timer handled after the close
  settles a call exactly as it would have without the close.
\<close>

theorem C8_close_keeps_pending_calls:
  "pendingRequests (on_close st cid) = pendingRequests st \<and>
   timers (on_close st cid) = timers st \<and>
   outcomes (on_close st cid) = outcomes st \<and>
   outcomes (handleResponse (on_close st cid) r) = outcomes (handleResponse st r) \<and>
   pendingRequests (handleResponse (on_close st cid) r) = pendingRequests (handleResponse st r) \<and>
   timers (handleResponse (on_close st cid) r) = timers (handleResponse st r) \<and>
   outcomes (fire_timer (on_close st cid) h) = outcomes (fire_timer st h) \<and>
   pendingRequests (fire_timer (on_close st cid) h) = pendingRequests (fire_timer st h) \<and>
   timers (fire_timer (on_close st cid) h) = timers (fire_timer st h)"
proof -
  have hr: "outcomes (handleResponse (on_close st cid) r) = outcomes (handleResponse st r)"
    "pendingRequests (handleResponse (on_close st cid) r) = pendingRequests (handleResponse st r)"
    "timers (handleResponse (on_close st cid) r) = timers (handleResponse st r)"
    by (simp_all add: handleResponse_def on_close_frame Let_def clearTimeout_def settle_def
        console_write_def split: option.splits)
  have ft: "outcomes (fire_timer (on_close st cid) h) = outcomes (fire_timer st h)"
    "pendingRequests (fire_timer (on_close st cid) h) = pendingRequests (fire_timer st h)"
    "timers (fire_timer (on_close st cid) h) = timers (fire_timer st h)"
    by (simp_all add: fire_timer_def on_close_frame timeout_callback_def settle_def
        split: option.splits)
  show ?thesis
    by (simp add: on_close_frame hr ft)
qed

text \<open>
  C4: a response whose identifier has no entry in the pending table only writes a warning:
  the new state is the old one with one more console line, so the pending table, the
  timers, the outcomes and the connections are unchanged; the message handler that wraps
  \<^verbatim>\<open>handleResponse\<close> does the same.
\<close>

theorem C4_unknown_response_discarded:
  assumes "map_of (pendingRequests st) (id_res r) = None"
  shows "handleResponse st r =
           st\<lparr>console := console st @
              [(WARN, ''[plugin] received response for unknown request: '' @ id_res r)]\<rparr> \<and>
         on_message st (Some r) = handleResponse st r \<and>
         pendingRequests (handleResponse st r) = pendingRequests st \<and>
         timers (handleResponse st r) = timers st \<and>
         outcomes (handleResponse st r) = outcomes st"
  using assms by (simp add: handleResponse_unknown on_message_def)

theorem C4_unknown_response_discarded_witness:
  "map_of (pendingRequests (run uuid0 init [AddConnection ws_open, SendRequest ''search'' []]))
     (id_res \<lparr>id_res = ''never-issued'', result = Some JNull, error = None\<rparr>) = None \<and>
   pendingRequests (handleResponse (run uuid0 init [AddConnection ws_open, SendRequest ''search'' []])
       \<lparr>id_res = ''never-issued'', result = Some JNull, error = None\<rparr>) =
     [(''id-x'', \<lparr>resolve = 0, reject = 0, timeout = 0\<rparr>)] \<and>
   outcomes (handleResponse (run uuid0 init [AddConnection ws_open, SendRequest ''search'' []])
       \<lparr>id_res = ''never-issued'', result = Some JNull, error = None\<rparr>) = []"
  using C4_unknown_response_discarded
    [of "run uuid0 init [AddConnection ws_open, SendRequest ''search'' []]"
        "\<lparr>id_res = ''never-issued'', result = Some JNull, error = None\<rparr>"]
  by (simp add: model_defs)

text \<open>
  C7, as the code has it: for a response that matches a pending entry, a non-empty error
  string rejects the call with exactly that string as the message; an absent error and the
  empty error string both resolve the call with the result field. Either way the entry is
  deleted and its timer cleared.
\<close>

theorem C7_response_settles_call:
  assumes "map_of (pendingRequests st) (id_res r) = Some p"
  shows "outcomes (handleResponse st r) =
           outcomes st @
             [case error r of
                None \<Rightarrow> (resolve p, Resolved (result r))
              | Some e \<Rightarrow> if e \<noteq> [] then (reject p, Rejected e)
                          else (resolve p, Resolved (result r))] \<and>
         pendingRequests (handleResponse st r) = AList.delete (id_res r) (pendingRequests st) \<and>
         timers (handleResponse st r) = AList.delete (timeout p) (timers st)"
  using handleResponse_known[OF assms]
  by (simp add: truthy_error_def split: option.splits)

theorem C7_response_settles_call_witness:
  "map_of (pendingRequests (run uuid0 init [AddConnection ws_open, SendRequest ''search'' []]))
     (id_res \<lparr>id_res = ''id-x'', result = None, error = Some ''Note not found''\<rparr>) =
     Some \<lparr>resolve = 0, reject = 0, timeout = 0\<rparr> \<and>
   outcomes (handleResponse (run uuid0 init [AddConnection ws_open, SendRequest ''search'' []])
       \<lparr>id_res = ''id-x'', result = None, error = Some ''Note not found''\<rparr>) =
     [(0, Rejected ''Note not found'')] \<and>
   pendingRequests (handleResponse (run uuid0 init [AddConnection ws_open, SendRequest ''search'' []])
       \<lparr>id_res = ''id-x'', result = None, error = Some ''Note not found''\<rparr>) = []"
  using C7_response_settles_call
    [of "run uuid0 init [AddConnection ws_open, SendRequest ''search'' []]"
        "\<lparr>id_res = ''id-x'', result = None, error = Some ''Note not found''\<rparr>"
        "\<lparr>resolve = 0, reject = 0, timeout = 0\<rparr>"]
  by (simp add: model_defs)

text \<open>
  The claim as stated fails on an envelope whose error string is empty: the entry matches,
  the envelope carries the error string \<open>''''\<close>, and the call is resolved (with the absent
  result) instead of being rejected with that string.
\<close>

theorem C7_empty_error_counterexample:
  "map_of (pendingRequests (run uuid0 init [AddConnection ws_open, SendRequest ''search'' []]))
     (id_res \<lparr>id_res = ''id-x'', result = None, error = Some ''''\<rparr>) =
     Some \<lparr>resolve = 0, reject = 0, timeout = 0\<rparr> \<and>
   error \<lparr>id_res = ''id-x'', result = None, error = Some ''''\<rparr> = Some '''' \<and>
   outcomes (handleResponse (run uuid0 init [AddConnection ws_open, SendRequest ''search'' []])
       \<lparr>id_res = ''id-x'', result = None, error = Some ''''\<rparr>) = [(0, Resolved None)] \<and>
   outcomes (handleResponse (run uuid0 init [AddConnection ws_open, SendRequest ''search'' []])
       \<lparr>id_res = ''id-x'', result = None, error = Some ''''\<rparr>) \<noteq> [(0, Rejected '''')]"
  by (simp add: model_defs)

subsection \<open>The active connection is tracked\<close>

lemma active_tracked_iff:
  "active_tracked st \<longleftrightarrow>
     (\<forall>a. activeConnectionId st = Some a \<longrightarrow> a \<in> fst ` set (connections st))"
  by (simp add: active_tracked_def split: option.splits)

lemma active_tracked_step:
  assumes "active_tracked st"
  shows "active_tracked (step u st e)"
proof (cases e)
  case (AddConnection ws)
  have "fst ` set (connections (snd (addConnection u st ws))) =
          insert (u (uuid_calls st)) (fst ` set (connections st))"
    by (rule addConnection_keys)
  then show ?thesis
    using assms AddConnection
    by (auto simp: active_tracked_iff addConnection_active split: option.splits)
next
  case (Close cid)
  have "fst ` set (AList.delete cid (connections st)) = fst ` set (connections st) - {cid}"
    by (auto simp: AList.delete_eq image_iff)
  then show ?thesis
    using assms Close
    by (auto simp: active_tracked_iff on_close_active on_close_connections
        split: option.splits list.splits)
next
  case (Message m)
  then show ?thesis using assms
    by (cases m) (simp_all add: active_tracked_iff on_message_def console_write_def handleResponse_frame)
next
  case (SendRequest a p)
  then show ?thesis using assms
    using sendRequest_frame(4)[of u st a p]
    by (simp add: active_tracked_iff sendRequest_frame(1))
next
  case (TimerFires h)
  then show ?thesis using assms by (simp add: active_tracked_iff fire_timer_frame)
next
  case PingAll
  then show ?thesis using assms using keys_pingAll[of st] by (simp add: active_tracked_iff pingAll_frame flip: set_map)
next
  case (SocketState cid rs)
  then show ?thesis using assms
    using socket_state_frame(8)[of st cid rs]
    by (simp add: active_tracked_iff socket_state_frame(7))
next
  case (Advance d)
  then show ?thesis using assms by (simp add: active_tracked_iff)
qed

lemma active_tracked_run: "active_tracked st \<Longrightarrow> active_tracked (run u st evs)"
  by (induction evs arbitrary: st) (simp_all add: active_tracked_step)

lemma active_tracked_init: "active_tracked init"
  by (simp add: active_tracked_iff init_def)

text \<open>
  C10: in every state reached from the initial one by any sequence of events, the active
  identifier is null or a key of the connections map; so \<^verbatim>\<open>hasActiveConnection()\<close> is
  true exactly when the identifier is not null, and the lookup \<^verbatim>\<open>sendRequest\<close> makes
  after a successful check finds a socket.
\<close>

theorem C10_active_connection_tracked:
  "(activeConnectionId (run uuidv4 init evs) = None \<or>
      (\<exists>a. activeConnectionId (run uuidv4 init evs) = Some a \<and>
           a \<in> fst ` set (connections (run uuidv4 init evs)))) \<and>
   hasActiveConnection (run uuidv4 init evs) = (activeConnectionId (run uuidv4 init evs) \<noteq> None) \<and>
   (hasActiveConnection (run uuidv4 init evs) \<longrightarrow> active_socket (run uuidv4 init evs) \<noteq> None)"
proof -
  have "active_tracked (run uuidv4 init evs)"
    by (rule active_tracked_run) (rule active_tracked_init)
  then have t: "\<And>a. activeConnectionId (run uuidv4 init evs) = Some a \<Longrightarrow>
                  a \<in> fst ` set (connections (run uuidv4 init evs))"
    by (simp add: active_tracked_iff)
  then have m: "\<And>a. activeConnectionId (run uuidv4 init evs) = Some a \<Longrightarrow>
                  map_of (connections (run uuidv4 init evs)) a \<noteq> None"
    by (simp add: map_of_eq_None_iff)
  show ?thesis
    using t m
    by (cases "activeConnectionId (run uuidv4 init evs)")
      (simp_all add: hasActiveConnection_def active_socket_def)
qed

theorem C10_active_connection_tracked_witness:
  "hasActiveConnection
     (run uuid0 init [AddConnection ws_open, AddConnection ws_open, Close ''id-'', PingAll]) \<and>
   activeConnectionId
     (run uuid0 init [AddConnection ws_open, AddConnection ws_open, Close ''id-'', PingAll]) = Some ''id-x'' \<and>
   active_socket
     (run uuid0 init [AddConnection ws_open, AddConnection ws_open, Close ''id-'', PingAll]) \<noteq> None"
  using C10_active_connection_tracked
    [of uuid0 "[AddConnection ws_open, AddConnection ws_open, Close ''id-'', PingAll]"]
  by (simp add: model_defs)

lemma calls_ok_reachable: "calls_ok (run u init evs)"
  by (rule calls_ok_run) (rule calls_ok_init)

lemma entries_ok_reachable: "inj u \<Longrightarrow> entries_ok u (run u init evs)"
  by (rule entries_ok_run) (simp_all add: calls_ok_init entries_ok_init)

lemma map_of_None_delete: "map_of al k = None \<Longrightarrow> AList.delete k al = al"
  by (simp add: map_of_eq_None_iff)

text \<open>
  C6: in a state reached from the initial one, with identifiers that never repeat, a
  dispatch that passes the active-connection check but finds the active socket missing or
  not OPEN returns with the call rejected with the not-ready message and nothing else
  changed but the two counters: the pending table, the timer table and the connections
  are what they were before the call, and nothing was written on any socket.
\<close>

theorem C6_transport_not_ready:
  assumes "inj uuidv4" and "st = run uuidv4 init evs"
    and "hasActiveConnection st" and "\<not> writable st"
  shows "sendRequest uuidv4 st act pl =
           (next_call st,
            st\<lparr>next_call := Suc (next_call st), uuid_calls := Suc (uuid_calls st),
               outcomes := outcomes st @ [(next_call st, Rejected ''WebSocket connection not ready'')]\<rparr>) \<and>
         pendingRequests (snd (sendRequest uuidv4 st act pl)) = pendingRequests st \<and>
         timers (snd (sendRequest uuidv4 st act pl)) = timers st \<and>
         connections (snd (sendRequest uuidv4 st act pl)) = connections st"
proof -
  have "calls_ok st" "entries_ok uuidv4 st"
    using assms(1,2) by (simp_all add: calls_ok_reachable entries_ok_reachable)
  have "map_of (pendingRequests st) (uuidv4 (uuid_calls st)) = None"
    using \<open>entries_ok uuidv4 st\<close> assms(1) by (rule entries_ok_fresh[rotated])
  then have P: "AList.delete (uuidv4 (uuid_calls st)) (pendingRequests st) = pendingRequests st"
    by (rule map_of_None_delete)
  have "map_of (timers st) (next_call st) = None"
  proof (cases "map_of (timers st) (next_call st)")
    case (Some t)
    then have "next_call st < next_call st"
      using \<open>calls_ok st\<close> unfolding calls_ok_def by blast
    then show ?thesis by simp
  qed simp
  then have T: "AList.delete (next_call st) (timers st) = timers st"
    by (rule map_of_None_delete)
  have eq: "sendRequest uuidv4 st act pl =
           (next_call st,
            st\<lparr>next_call := Suc (next_call st), uuid_calls := Suc (uuid_calls st),
               outcomes := outcomes st @ [(next_call st, Rejected NOT_READY_MESSAGE)]\<rparr>)"
    using assms(3,4) P T
    by (auto simp: sendRequest_def Let_def settle_def clearTimeout_def writable_def
        AList.delete_update_same split: option.splits)
  show ?thesis
    by (simp add: eq) (simp add: NOT_READY_MESSAGE_def)
qed

theorem C6_transport_not_ready_witness:
  "inj uuid0 \<and>
   hasActiveConnection
     (run uuid0 init [AddConnection ws_open, SendRequest ''search'' [], SocketState ''id-'' CLOSING]) \<and>
   \<not> writable
     (run uuid0 init [AddConnection ws_open, SendRequest ''search'' [], SocketState ''id-'' CLOSING]) \<and>
   pendingRequests (snd (sendRequest uuid0
     (run uuid0 init [AddConnection ws_open, SendRequest ''search'' [], SocketState ''id-'' CLOSING])
     ''read_note'' [])) = [(''id-x'', \<lparr>resolve = 0, reject = 0, timeout = 0\<rparr>)] \<and>
   outcomes (snd (sendRequest uuid0
     (run uuid0 init [AddConnection ws_open, SendRequest ''search'' [], SocketState ''id-'' CLOSING])
     ''read_note'' [])) = [(1, Rejected ''WebSocket connection not ready'')]"
  using C6_transport_not_ready
    [OF inj_uuid0 refl, of "[AddConnection ws_open, SendRequest ''search'' [], SocketState ''id-'' CLOSING]"
       "''read_note''" "[]"]
  by (simp add: model_defs writable_def inj_uuid0)

subsection \<open>Two calls in flight\<close>

lemma sendRequest_sent_socket:
  assumes "hasActiveConnection st" "writable st"
  shows "active_socket (snd (sendRequest u st a p)) =
           map_option (\<lambda>ws. ws\<lparr>sent := sent ws @
              [Request \<lparr>id_req = u (uuid_calls st), action = a, payload = p\<rparr>]\<rparr>) (active_socket st)"
    and "hasActiveConnection (snd (sendRequest u st a p))"
    and "writable (snd (sendRequest u st a p))"
proof -
  from assms obtain k ws where k: "activeConnectionId st = Some k"
    and ws: "map_of (connections st) k = Some ws" "readyState ws = OPEN_ws"
    by (auto simp: writable_def active_socket_def split: option.splits)
  have c: "connections (snd (sendRequest u st a p)) =
          AList.map_entry k (ws_send (Request \<lparr>id_req = u (uuid_calls st), action = a, payload = p\<rparr>))
            (connections st)"
    using assms k ws
    by (simp add: sendRequest_def Let_def console_write_def active_send_def socket_send_def
        active_socket_def)
  have a: "activeConnectionId (snd (sendRequest u st a p)) = Some k"
    by (simp add: sendRequest_frame k)
  show s: "active_socket (snd (sendRequest u st a p)) =
           map_option (\<lambda>ws. ws\<lparr>sent := sent ws @
              [Request \<lparr>id_req = u (uuid_calls st), action = a, payload = p\<rparr>]\<rparr>) (active_socket st)"
    by (simp add: active_socket_def a c k ws AList.map_of_map_entry ws_send_def)
  show "hasActiveConnection (snd (sendRequest u st a p))"
    using assms(1) sendRequest_frame(4)[of u st a p]
    by (simp add: hasActiveConnection_def a k)
  have "active_socket st = Some ws"
    by (simp add: active_socket_def k ws)
  then show "writable (snd (sendRequest u st a p))"
    by (simp add: writable_def s ws)
qed

lemma handleResponse_entry:
  assumes "map_of (pendingRequests st) (id_res r) = Some \<lparr>resolve = c, reject = c, timeout = c\<rparr>"
  shows "outcomes (handleResponse st r) = outcomes st @ [(c, reply_outcome r)]"
    and "map_of (pendingRequests (handleResponse st r)) =
           (map_of (pendingRequests st))(id_res r := None)"
  using handleResponse_known[OF assms]
  by (simp_all add: reply_outcome_def AList.delete_conv')

text \<open>
  C2: two calls dispatched one after the other while both are in flight. With an
  identifier supply that never repeats, the two envelopes written on the active socket
  carry different identifiers, and whichever of the two responses is handled first, each
  call is settled once, with the value or error of the response that carries its own
  identifier.
\<close>

theorem C2_concurrent_calls_routed:
  assumes "inj uuidv4" and "hasActiveConnection st" and "writable st"
    and "stA = snd (sendRequest uuidv4 st actA plA)"
    and "stB = snd (sendRequest uuidv4 stA actB plB)"
    and "id_res rA = uuidv4 (uuid_calls st)"
    and "id_res rB = uuidv4 (Suc (uuid_calls st))"
  shows "fst (sendRequest uuidv4 st actA plA) = next_call st \<and>
         fst (sendRequest uuidv4 stA actB plB) = Suc (next_call st) \<and>
         uuidv4 (uuid_calls st) \<noteq> uuidv4 (Suc (uuid_calls st)) \<and>
         active_socket stB =
           map_option (\<lambda>ws. ws\<lparr>sent := sent ws @
              [Request \<lparr>id_req = uuidv4 (uuid_calls st), action = actA, payload = plA\<rparr>,
               Request \<lparr>id_req = uuidv4 (Suc (uuid_calls st)), action = actB, payload = plB\<rparr>]\<rparr>)
             (active_socket st) \<and>
         outcomes (handleResponse (handleResponse stB rB) rA) =
           outcomes st @ [(Suc (next_call st), reply_outcome rB), (next_call st, reply_outcome rA)] \<and>
         outcomes (handleResponse (handleResponse stB rA) rB) =
           outcomes st @ [(next_call st, reply_outcome rA), (Suc (next_call st), reply_outcome rB)]"
proof -
  let ?a = "next_call st" and ?b = "Suc (next_call st)"
  let ?idA = "uuidv4 (uuid_calls st)" and ?idB = "uuidv4 (Suc (uuid_calls st))"
  have ne: "?idA \<noteq> ?idB"
    using assms(1) by (auto dest: injD)
  have A: "hasActiveConnection stA" "writable stA" "uuid_calls stA = Suc (uuid_calls st)"
    "next_call stA = ?a + 1" "outcomes stA = outcomes st"
    and PA: "map_of (pendingRequests stA) =
      (map_of (pendingRequests st))(?idA \<mapsto> \<lparr>resolve = ?a, reject = ?a, timeout = ?a\<rparr>)"
    and SA: "active_socket stA = map_option (\<lambda>ws. ws\<lparr>sent := sent ws @
              [Request \<lparr>id_req = ?idA, action = actA, payload = plA\<rparr>]\<rparr>) (active_socket st)"
    unfolding assms(4)
    using sendRequest_sent_socket[OF assms(2,3)] sendRequest_sent[OF assms(2,3)]
    by (simp_all add: sendRequest_frame AList.update_conv')
  have B: "outcomes stB = outcomes st"
    and PB: "map_of (pendingRequests stB) =
      (map_of (pendingRequests st))(?idA \<mapsto> \<lparr>resolve = ?a, reject = ?a, timeout = ?a\<rparr>,
         ?idB \<mapsto> \<lparr>resolve = ?b, reject = ?b, timeout = ?b\<rparr>)"
    and SB: "active_socket stB = map_option (\<lambda>ws. ws\<lparr>sent := sent ws @
              [Request \<lparr>id_req = ?idB, action = actB, payload = plB\<rparr>]\<rparr>) (active_socket stA)"
    unfolding assms(5)
    using sendRequest_sent_socket[OF A(1,2)] sendRequest_sent[OF A(1,2)] A(3,4,5) PA
    by (simp_all add: AList.update_conv')
  have eA: "map_of (pendingRequests stB) (id_res rA) = Some \<lparr>resolve = ?a, reject = ?a, timeout = ?a\<rparr>"
    and eB: "map_of (pendingRequests stB) (id_res rB) = Some \<lparr>resolve = ?b, reject = ?b, timeout = ?b\<rparr>"
    using ne by (simp_all add: PB assms(6,7))
  have eA': "map_of (pendingRequests (handleResponse stB rB)) (id_res rA) =
               Some \<lparr>resolve = ?a, reject = ?a, timeout = ?a\<rparr>"
    using ne eA by (simp add: handleResponse_entry(2)[OF eB] assms(6,7))
  have eB': "map_of (pendingRequests (handleResponse stB rA)) (id_res rB) =
               Some \<lparr>resolve = ?b, reject = ?b, timeout = ?b\<rparr>"
    using ne eB by (simp add: handleResponse_entry(2)[OF eA] assms(6,7))
  have o1: "outcomes (handleResponse (handleResponse stB rB) rA) =
           outcomes st @ [(?b, reply_outcome rB), (?a, reply_outcome rA)]"
    by (simp add: handleResponse_entry(1)[OF eA'] handleResponse_entry(1)[OF eB] B)
  have o2: "outcomes (handleResponse (handleResponse stB rA) rB) =
           outcomes st @ [(?a, reply_outcome rA), (?b, reply_outcome rB)]"
    by (simp add: handleResponse_entry(1)[OF eB'] handleResponse_entry(1)[OF eA] B)
  have s: "active_socket stB =
           map_option (\<lambda>ws. ws\<lparr>sent := sent ws @
              [Request \<lparr>id_req = ?idA, action = actA, payload = plA\<rparr>,
               Request \<lparr>id_req = ?idB, action = actB, payload = plB\<rparr>]\<rparr>)
             (active_socket st)"
    by (cases "active_socket st") (simp_all add: SB SA)
  show ?thesis
    using ne o1 o2 s A(4) by (simp add: sendRequest_fst assms(4))
qed


theorem C2_concurrent_calls_routed_witness:
  "inj uuid0 \<and>
   hasActiveConnection (run uuid0 init [AddConnection ws_open]) \<and>
   writable (run uuid0 init [AddConnection ws_open]) \<and>
   ''id-x'' \<noteq> ''id-xx'' \<and>
   outcomes (handleResponse (handleResponse
       (run uuid0 init [AddConnection ws_open, SendRequest ''search'' [], SendRequest ''read_note'' []])
       \<lparr>id_res = ''id-xx'', result = None, error = Some ''Note not found''\<rparr>)
       \<lparr>id_res = ''id-x'', result = Some (JString ''hit''), error = None\<rparr>) =
     [(1, Rejected ''Note not found''), (0, Resolved (Some (JString ''hit'')))] \<and>
   outcomes (handleResponse (handleResponse
       (run uuid0 init [AddConnection ws_open, SendRequest ''search'' [], SendRequest ''read_note'' []])
       \<lparr>id_res = ''id-x'', result = Some (JString ''hit''), error = None\<rparr>)
       \<lparr>id_res = ''id-xx'', result = None, error = Some ''Note not found''\<rparr>) =
     [(0, Resolved (Some (JString ''hit''))), (1, Rejected ''Note not found'')]"
  using C2_concurrent_calls_routed
    [OF inj_uuid0 _ _ refl refl, of "run uuid0 init [AddConnection ws_open]"
       "\<lparr>id_res = ''id-x'', result = Some (JString ''hit''), error = None\<rparr>"
       "\<lparr>id_res = ''id-xx'', result = None, error = Some ''Note not found''\<rparr>"
       "''search''" "[]" "''read_note''" "[]"]
  by (simp add: model_defs writable_def reply_outcome_def inj_uuid0)

subsection \<open>Closing the active connection\<close>

lemma no_connections_step:
  assumes "connections st = []" "\<And>ws. e \<noteq> AddConnection ws"
  shows "connections (step u st e) = []"
proof (cases e)
  case (Message m)
  then show ?thesis using assms(1)
    by (cases m) (simp_all add: on_message_def console_write_def handleResponse_frame)
next
  case (SendRequest a p)
  have "\<not> hasActiveConnection st"
    using assms(1) by (simp add: hasActiveConnection_def split: option.splits)
  then show ?thesis using assms(1) SendRequest by (simp add: sendRequest_no_connection)
qed (use assms in \<open>simp_all add: on_close_connections fire_timer_frame pingAll_def socket_state_def\<close>)

lemma no_connections_run:
  assumes "connections st = []" "\<And>ws. AddConnection ws \<notin> set evs"
  shows "connections (run u st evs) = []"
  using assms
proof (induction evs arbitrary: st)
  case Nil
  then show ?case by simp
next
  case (Cons e evs)
  have "connections (step u st e) = []"
    using Cons.prems by (intro no_connections_step) auto
  moreover have "\<And>ws. AddConnection ws \<notin> set evs"
    using Cons.prems(2) by auto
  ultimately show ?case
    using Cons.IH by simp
qed

lemma no_connections_inactive: "connections st = [] \<Longrightarrow> \<not> hasActiveConnection st"
  by (simp add: hasActiveConnection_def split: option.splits)

lemma close_of_active_next_dispatch:
  assumes "activeConnectionId st = Some cid"
  shows "(AList.delete cid (connections st) = [] \<longrightarrow>
            \<not> hasActiveConnection (on_close st cid) \<and>
            outcomes (snd (sendRequest uuidv4 (on_close st cid) act pl)) =
              outcomes st @ [(next_call st, Rejected NO_PLUGIN_MESSAGE)] \<and>
            pendingRequests (snd (sendRequest uuidv4 (on_close st cid) act pl)) = pendingRequests st \<and>
            timers (snd (sendRequest uuidv4 (on_close st cid) act pl)) = timers st \<and>
            (\<forall>evs. (\<forall>ws. AddConnection ws \<notin> set evs) \<longrightarrow>
                   \<not> hasActiveConnection (run uuidv4 (on_close st cid) evs)) \<and>
            (\<forall>ws. hasActiveConnection (snd (addConnection uuidv4 (on_close st cid) ws)))) \<and>
         (\<forall>k ws rest. AList.delete cid (connections st) = (k, ws) # rest \<longrightarrow>
            hasActiveConnection (on_close st cid) \<and>
            activeConnectionId (on_close st cid) = Some k \<and>
            active_socket (on_close st cid) = Some ws \<and>
            (readyState ws = OPEN_ws \<longrightarrow>
               connections (snd (sendRequest uuidv4 (on_close st cid) act pl)) =
                 (k, ws\<lparr>sent := sent ws @
                    [Request \<lparr>id_req = uuidv4 (uuid_calls st), action = act, payload = pl\<rparr>]\<rparr>) # rest \<and>
               outcomes (snd (sendRequest uuidv4 (on_close st cid) act pl)) = outcomes st) \<and>
            (readyState ws \<noteq> OPEN_ws \<longrightarrow>
               connections (snd (sendRequest uuidv4 (on_close st cid) act pl)) = (k, ws) # rest \<and>
               outcomes (snd (sendRequest uuidv4 (on_close st cid) act pl)) =
                 outcomes st @ [(next_call st, Rejected NOT_READY_MESSAGE)]))"
proof (intro conjI impI allI)
  let ?st' = "on_close st cid"
  assume e: "AList.delete cid (connections st) = []"
  then have c: "connections ?st' = []"
    by (simp add: on_close_connections)
  then show n: "\<not> hasActiveConnection ?st'"
    by (rule no_connections_inactive)
  show "outcomes (snd (sendRequest uuidv4 ?st' act pl)) =
          outcomes st @ [(next_call st, Rejected NO_PLUGIN_MESSAGE)]"
    "pendingRequests (snd (sendRequest uuidv4 ?st' act pl)) = pendingRequests st"
    "timers (snd (sendRequest uuidv4 ?st' act pl)) = timers st"
    by (simp_all add: sendRequest_no_connection[OF n] on_close_frame)
  show "\<not> hasActiveConnection (run uuidv4 ?st' evs)" if "\<forall>ws. AddConnection ws \<notin> set evs" for evs
    using that by (intro no_connections_inactive no_connections_run c) simp
  show "hasActiveConnection (snd (addConnection uuidv4 ?st' ws))" for ws
    using assms e addConnection_keys[of uuidv4 ?st' ws]
    by (simp add: hasActiveConnection_def addConnection_active on_close_active falsy_id_def)
next
  fix k ws rest
  let ?st' = "on_close st cid"
  assume e: "AList.delete cid (connections st) = (k, ws) # rest"
  then have c: "connections ?st' = (k, ws) # rest"
    by (simp add: on_close_connections)
  show a: "activeConnectionId ?st' = Some k"
    using assms e by (simp add: on_close_active)
  show h: "hasActiveConnection ?st'"
    by (simp add: hasActiveConnection_def a c)
  show s: "active_socket ?st' = Some ws"
    by (simp add: active_socket_def a c)
  {
    assume o: "readyState ws = OPEN_ws"
    then have w: "writable ?st'"
      by (simp add: writable_def s)
    show "connections (snd (sendRequest uuidv4 ?st' act pl)) =
            (k, ws\<lparr>sent := sent ws @
               [Request \<lparr>id_req = uuidv4 (uuid_calls st), action = act, payload = pl\<rparr>]\<rparr>) # rest"
      using h s o a c
      by (simp add: sendRequest_def Let_def console_write_def active_send_def socket_send_def
          ws_send_def on_close_frame)
    show "outcomes (snd (sendRequest uuidv4 ?st' act pl)) = outcomes st"
      by (simp add: sendRequest_sent(3)[OF h w] on_close_frame)
  }
  {
    assume o: "readyState ws \<noteq> OPEN_ws"
    then have w: "\<not> writable ?st'"
      by (simp add: writable_def s)
    show "connections (snd (sendRequest uuidv4 ?st' act pl)) = (k, ws) # rest"
      by (simp add: sendRequest_not_ready(5)[OF h w] c)
    show "outcomes (snd (sendRequest uuidv4 ?st' act pl)) =
            outcomes st @ [(next_call st, Rejected NOT_READY_MESSAGE)]"
      by (simp add: sendRequest_not_ready(3)[OF h w] on_close_frame)
  }
qed


lemma keys_delete: "fst ` set (AList.delete c al) = fst ` set al - {c}"
  by (auto simp: AList.delete_eq image_iff)

lemma active_kept_step:
  assumes "activeConnectionId st = Some k" "k \<in> fst ` set (connections st)" "keeps_active k e"
  shows "activeConnectionId (step u st e) = Some k \<and> k \<in> fst ` set (connections (step u st e))"
proof (cases e)
  case (AddConnection ws)
  with assms(3) have "k \<noteq> []" by (simp add: keeps_active_def)
  with AddConnection assms(1,2) show ?thesis
    by (simp add: addConnection_active addConnection_keys falsy_id_def)
next
  case (Close c)
  with assms(3) have "c \<noteq> k" by (simp add: keeps_active_def)
  with Close assms(1,2) show ?thesis
    by (simp add: on_close_active on_close_connections keys_delete)
next
  case (Message m)
  with assms(1,2) show ?thesis
    by (cases m) (simp_all add: on_message_def console_write_def handleResponse_frame)
next
  case (SendRequest a p)
  with assms(1,2) show ?thesis
    by (simp add: sendRequest_frame)
next
  case (TimerFires h)
  with assms(1,2) show ?thesis
    by (simp add: fire_timer_frame)
next
  case PingAll
  with assms(1,2) keys_pingAll[of st] show ?thesis
    by (simp add: pingAll_frame flip: set_map)
next
  case (SocketState c rs)
  with assms(1,2) show ?thesis
    by (simp add: socket_state_frame)
next
  case (Advance d)
  with assms(1,2) show ?thesis by simp
qed

lemma active_kept_run:
  assumes "activeConnectionId st = Some k" "k \<in> fst ` set (connections st)"
    "\<forall>e \<in> set evs. keeps_active k e"
  shows "activeConnectionId (run u st evs) = Some k \<and> k \<in> fst ` set (connections (run u st evs))"
  using assms
proof (induction evs arbitrary: st)
  case Nil
  then show ?case by simp
next
  case (Cons e evs)
  have "activeConnectionId (step u st e) = Some k \<and> k \<in> fst ` set (connections (step u st e))"
    using Cons.prems by (intro active_kept_step) auto
  then show ?case
    using Cons.IH Cons.prems(3) by simp
qed

lemma dispatch_on_active:
  assumes "activeConnectionId st = Some k" "k \<in> fst ` set (connections st)"
  shows "hasActiveConnection st \<and>
         (\<exists>ws. active_socket st = Some ws \<and>
            (readyState ws = OPEN_ws \<longrightarrow>
               connections (snd (sendRequest u st a p)) =
                 AList.map_entry k
                   (ws_send (Request \<lparr>id_req = u (uuid_calls st), action = a, payload = p\<rparr>))
                   (connections st) \<and>
               active_socket (snd (sendRequest u st a p)) =
                 Some (ws\<lparr>sent := sent ws @
                    [Request \<lparr>id_req = u (uuid_calls st), action = a, payload = p\<rparr>]\<rparr>) \<and>
               outcomes (snd (sendRequest u st a p)) = outcomes st) \<and>
            (readyState ws \<noteq> OPEN_ws \<longrightarrow>
               connections (snd (sendRequest u st a p)) = connections st \<and>
               outcomes (snd (sendRequest u st a p)) =
                 outcomes st @ [(next_call st, Rejected NOT_READY_MESSAGE)]))"
proof -
  have h: "hasActiveConnection st"
    using assms by (simp add: hasActiveConnection_def)
  from assms(2) obtain ws where m: "map_of (connections st) k = Some ws"
    by (auto simp: map_of_eq_None_iff[symmetric] image_iff dest: weak_map_of_SomeI)
  then have s: "active_socket st = Some ws"
    by (simp add: active_socket_def assms(1))
  have sent: "connections (snd (sendRequest u st a p)) =
                 AList.map_entry k
                   (ws_send (Request \<lparr>id_req = u (uuid_calls st), action = a, payload = p\<rparr>))
                   (connections st) \<and>
               active_socket (snd (sendRequest u st a p)) =
                 Some (ws\<lparr>sent := sent ws @
                    [Request \<lparr>id_req = u (uuid_calls st), action = a, payload = p\<rparr>]\<rparr>) \<and>
               outcomes (snd (sendRequest u st a p)) = outcomes st"
    if o: "readyState ws = OPEN_ws"
  proof -
    have w: "writable st"
      by (simp add: writable_def s o)
    have "connections (snd (sendRequest u st a p)) =
                 AList.map_entry k
                   (ws_send (Request \<lparr>id_req = u (uuid_calls st), action = a, payload = p\<rparr>))
                   (connections st)"
      using h s o assms(1)
      by (simp add: sendRequest_def Let_def console_write_def active_send_def socket_send_def)
    then show ?thesis
      using sendRequest_sent_socket(1)[OF h w, of u a p] sendRequest_sent(3)[OF h w, of u a p]
      by (simp add: s)
  qed
  have not_ready: "connections (snd (sendRequest u st a p)) = connections st \<and>
               outcomes (snd (sendRequest u st a p)) =
                 outcomes st @ [(next_call st, Rejected NOT_READY_MESSAGE)]"
    if o: "readyState ws \<noteq> OPEN_ws"
  proof -
    have w: "\<not> writable st"
      by (simp add: writable_def s o)
    show ?thesis
      by (simp add: sendRequest_not_ready(3,5)[OF h w])
  qed
  show ?thesis
    using h s sent not_ready by simp
qed

text \<open>
  C5, as the code has it. When the close handler removes the active connection and other
  connections remain, the first remaining one in registration order becomes active and
  \<^verbatim>\<open>hasActiveConnection()\<close> stays true. It stays the active connection under every
  sequence of events that does not contain its own close event, and every dispatch made
  meanwhile is directed at it: the envelope is written on its socket, and on no other,
  when that socket is OPEN, and the call is rejected as not ready when it is not. When no
  connection remains, \<^verbatim>\<open>hasActiveConnection()\<close> is false and stays false under every
  sequence of events without a registration, every dispatch made meanwhile is rejected at
  once with the no-plugin message and nothing else changes, and registering a connection
  makes \<^verbatim>\<open>hasActiveConnection()\<close> true again.
\<close>

theorem C5_close_of_active_connection:
  assumes "activeConnectionId st = Some cid"
  shows "(AList.delete cid (connections st) = [] \<longrightarrow>
            \<not> hasActiveConnection (on_close st cid) \<and>
            outcomes (snd (sendRequest uuidv4 (on_close st cid) act pl)) =
              outcomes st @ [(next_call st, Rejected NO_PLUGIN_MESSAGE)] \<and>
            pendingRequests (snd (sendRequest uuidv4 (on_close st cid) act pl)) = pendingRequests st \<and>
            timers (snd (sendRequest uuidv4 (on_close st cid) act pl)) = timers st \<and>
            (\<forall>evs. (\<forall>ws. AddConnection ws \<notin> set evs) \<longrightarrow>
                   \<not> hasActiveConnection (run uuidv4 (on_close st cid) evs)) \<and>
            (\<forall>ws. hasActiveConnection (snd (addConnection uuidv4 (on_close st cid) ws)))) \<and>
         (\<forall>k ws rest. AList.delete cid (connections st) = (k, ws) # rest \<longrightarrow>
            hasActiveConnection (on_close st cid) \<and>
            activeConnectionId (on_close st cid) = Some k \<and>
            active_socket (on_close st cid) = Some ws \<and>
            (readyState ws = OPEN_ws \<longrightarrow>
               connections (snd (sendRequest uuidv4 (on_close st cid) act pl)) =
                 (k, ws\<lparr>sent := sent ws @
                    [Request \<lparr>id_req = uuidv4 (uuid_calls st), action = act, payload = pl\<rparr>]\<rparr>) # rest \<and>
               outcomes (snd (sendRequest uuidv4 (on_close st cid) act pl)) = outcomes st) \<and>
            (readyState ws \<noteq> OPEN_ws \<longrightarrow>
               connections (snd (sendRequest uuidv4 (on_close st cid) act pl)) = (k, ws) # rest \<and>
               outcomes (snd (sendRequest uuidv4 (on_close st cid) act pl)) =
                 outcomes st @ [(next_call st, Rejected NOT_READY_MESSAGE)])) \<and>
         (\<forall>evs. AList.delete cid (connections st) = [] \<longrightarrow>
            (\<forall>ws. AddConnection ws \<notin> set evs) \<longrightarrow>
            sendRequest uuidv4 (run uuidv4 (on_close st cid) evs) act pl =
              (next_call (run uuidv4 (on_close st cid) evs),
               (run uuidv4 (on_close st cid) evs)
                 \<lparr>next_call := Suc (next_call (run uuidv4 (on_close st cid) evs)),
                  outcomes := outcomes (run uuidv4 (on_close st cid) evs) @
                    [(next_call (run uuidv4 (on_close st cid) evs), Rejected NO_PLUGIN_MESSAGE)]\<rparr>)) \<and>
         (\<forall>k ws rest evs. AList.delete cid (connections st) = (k, ws) # rest \<longrightarrow>
            (\<forall>e \<in> set evs. keeps_active k e) \<longrightarrow>
            hasActiveConnection (run uuidv4 (on_close st cid) evs) \<and>
            activeConnectionId (run uuidv4 (on_close st cid) evs) = Some k \<and>
            (\<exists>ws2. active_socket (run uuidv4 (on_close st cid) evs) = Some ws2 \<and>
               (readyState ws2 = OPEN_ws \<longrightarrow>
                  connections (snd (sendRequest uuidv4 (run uuidv4 (on_close st cid) evs) act pl)) =
                    AList.map_entry k
                      (ws_send (Request \<lparr>id_req = uuidv4 (uuid_calls (run uuidv4 (on_close st cid) evs)),
                                          action = act, payload = pl\<rparr>))
                      (connections (run uuidv4 (on_close st cid) evs)) \<and>
                  active_socket (snd (sendRequest uuidv4 (run uuidv4 (on_close st cid) evs) act pl)) =
                    Some (ws2\<lparr>sent := sent ws2 @
                      [Request \<lparr>id_req = uuidv4 (uuid_calls (run uuidv4 (on_close st cid) evs)),
                                 action = act, payload = pl\<rparr>]\<rparr>) \<and>
                  outcomes (snd (sendRequest uuidv4 (run uuidv4 (on_close st cid) evs) act pl)) =
                    outcomes (run uuidv4 (on_close st cid) evs)) \<and>
               (readyState ws2 \<noteq> OPEN_ws \<longrightarrow>
                  connections (snd (sendRequest uuidv4 (run uuidv4 (on_close st cid) evs) act pl)) =
                    connections (run uuidv4 (on_close st cid) evs) \<and>
                  outcomes (snd (sendRequest uuidv4 (run uuidv4 (on_close st cid) evs) act pl)) =
                    outcomes (run uuidv4 (on_close st cid) evs) @
                      [(next_call (run uuidv4 (on_close st cid) evs), Rejected NOT_READY_MESSAGE)])))"
proof -
  note next_dispatch = close_of_active_next_dispatch[OF assms, of uuidv4 act pl]
  have none: "sendRequest uuidv4 (run uuidv4 (on_close st cid) evs) act pl =
              (next_call (run uuidv4 (on_close st cid) evs),
               (run uuidv4 (on_close st cid) evs)
                 \<lparr>next_call := Suc (next_call (run uuidv4 (on_close st cid) evs)),
                  outcomes := outcomes (run uuidv4 (on_close st cid) evs) @
                    [(next_call (run uuidv4 (on_close st cid) evs), Rejected NO_PLUGIN_MESSAGE)]\<rparr>)"
    if "AList.delete cid (connections st) = []" "\<forall>ws. AddConnection ws \<notin> set evs" for evs
  proof -
    have "connections (on_close st cid) = []"
      using that(1) by (simp add: on_close_connections)
    then have "connections (run uuidv4 (on_close st cid) evs) = []"
      using that(2) by (intro no_connections_run) simp_all
    then have "\<not> hasActiveConnection (run uuidv4 (on_close st cid) evs)"
      by (rule no_connections_inactive)
    then show ?thesis
      by (rule sendRequest_no_connection)
  qed
  have kept: "hasActiveConnection (run uuidv4 (on_close st cid) evs) \<and>
            activeConnectionId (run uuidv4 (on_close st cid) evs) = Some k \<and>
            (\<exists>ws2. active_socket (run uuidv4 (on_close st cid) evs) = Some ws2 \<and>
               (readyState ws2 = OPEN_ws \<longrightarrow>
                  connections (snd (sendRequest uuidv4 (run uuidv4 (on_close st cid) evs) act pl)) =
                    AList.map_entry k
                      (ws_send (Request \<lparr>id_req = uuidv4 (uuid_calls (run uuidv4 (on_close st cid) evs)),
                                          action = act, payload = pl\<rparr>))
                      (connections (run uuidv4 (on_close st cid) evs)) \<and>
                  active_socket (snd (sendRequest uuidv4 (run uuidv4 (on_close st cid) evs) act pl)) =
                    Some (ws2\<lparr>sent := sent ws2 @
                      [Request \<lparr>id_req = uuidv4 (uuid_calls (run uuidv4 (on_close st cid) evs)),
                                 action = act, payload = pl\<rparr>]\<rparr>) \<and>
                  outcomes (snd (sendRequest uuidv4 (run uuidv4 (on_close st cid) evs) act pl)) =
                    outcomes (run uuidv4 (on_close st cid) evs)) \<and>
               (readyState ws2 \<noteq> OPEN_ws \<longrightarrow>
                  connections (snd (sendRequest uuidv4 (run uuidv4 (on_close st cid) evs) act pl)) =
                    connections (run uuidv4 (on_close st cid) evs) \<and>
                  outcomes (snd (sendRequest uuidv4 (run uuidv4 (on_close st cid) evs) act pl)) =
                    outcomes (run uuidv4 (on_close st cid) evs) @
                      [(next_call (run uuidv4 (on_close st cid) evs), Rejected NOT_READY_MESSAGE)]))"
    if e: "AList.delete cid (connections st) = (k, ws) # rest" and evs: "\<forall>e \<in> set evs. keeps_active k e"
    for k ws rest evs
  proof -
    have a: "activeConnectionId (on_close st cid) = Some k"
      using assms e by (simp add: on_close_active)
    have c: "k \<in> fst ` set (connections (on_close st cid))"
      using e by (simp add: on_close_connections)
    from active_kept_run[OF a c evs, of uuidv4]
    have "activeConnectionId (run uuidv4 (on_close st cid) evs) = Some k"
      and "k \<in> fst ` set (connections (run uuidv4 (on_close st cid) evs))"
      by simp_all
    from dispatch_on_active[OF this, of uuidv4 act pl] this(1) show ?thesis
      by simp
  qed
  show ?thesis
    apply (rule conjI)
     apply (rule next_dispatch[THEN conjunct1])
    apply (rule conjI)
     apply (rule next_dispatch[THEN conjunct2])
    apply (rule conjI)
    subgoal using none by blast
    subgoal using kept by blast
    done
qed


theorem C5_close_of_active_connection_witness:
  "activeConnectionId (run uuid0 init [AddConnection ws_open]) = Some ''id-'' \<and>
   \<not> hasActiveConnection (run uuid0 init [AddConnection ws_open, Close ''id-'']) \<and>
   outcomes (run uuid0 init [AddConnection ws_open, Close ''id-'', SendRequest ''search'' []]) =
     [(0, Rejected NO_PLUGIN_MESSAGE)] \<and>
   outcomes (run uuid0 init
       [AddConnection ws_open, Close ''id-'', PingAll, SendRequest ''search'' [], Close ''id-'',
        SendRequest ''read_note'' []]) =
     [(0, Rejected NO_PLUGIN_MESSAGE), (1, Rejected NO_PLUGIN_MESSAGE)] \<and>
   hasActiveConnection (run uuid0 init [AddConnection ws_open, Close ''id-'', AddConnection ws_open]) \<and>
   activeConnectionId (run uuid0 init [AddConnection ws_open, AddConnection ws_open]) = Some ''id-'' \<and>
   hasActiveConnection (run uuid0 init [AddConnection ws_open, AddConnection ws_open, Close ''id-'']) \<and>
   activeConnectionId (run uuid0 init [AddConnection ws_open, AddConnection ws_open, Close ''id-'']) =
     Some ''id-x'' \<and>
   connections (run uuid0 init
       [AddConnection ws_open, AddConnection ws_open, Close ''id-'', SendRequest ''search'' []]) =
     [(''id-x'', \<lparr>readyState = OPEN_ws,
                   sent = [Connected ''id-x'',
                           Request \<lparr>id_req = ''id-xx'', action = ''search'', payload = []\<rparr>]\<rparr>)] \<and>
   outcomes (run uuid0 init
       [AddConnection ws_open, AddConnection ws_open, Close ''id-'', SendRequest ''search'' []]) = [] \<and>
   list_all (keeps_active ''id-x'')
     [SendRequest ''search'' [], AddConnection ws_open, Close ''id-xxx''] \<and>
   activeConnectionId (run uuid0 init
       [AddConnection ws_open, AddConnection ws_open, Close ''id-'',
        SendRequest ''search'' [], AddConnection ws_open, Close ''id-xxx'']) = Some ''id-x'' \<and>
   connections (run uuid0 init
       [AddConnection ws_open, AddConnection ws_open, Close ''id-'',
        SendRequest ''search'' [], AddConnection ws_open, Close ''id-xxx'',
        SendRequest ''read_note'' []]) =
     [(''id-x'', \<lparr>readyState = OPEN_ws,
                   sent = [Connected ''id-x'',
                           Request \<lparr>id_req = ''id-xx'', action = ''search'', payload = []\<rparr>,
                           Request \<lparr>id_req = ''id-xxxx'', action = ''read_note'', payload = []\<rparr>]\<rparr>)] \<and>
   list_all (keeps_active ''id-x'') [SocketState ''id-x'' CLOSING, PingAll] \<and>
   outcomes (run uuid0 init
       [AddConnection ws_open, AddConnection ws_open, Close ''id-'',
        SocketState ''id-x'' CLOSING, PingAll, SendRequest ''read_note'' []]) =
     [(0, Rejected NOT_READY_MESSAGE)]"
proof -
  have one: "activeConnectionId (run uuid0 init [AddConnection ws_open]) = Some ''id-'' \<and>
    \<not> hasActiveConnection (run uuid0 init [AddConnection ws_open, Close ''id-'']) \<and>
    outcomes (run uuid0 init [AddConnection ws_open, Close ''id-'', SendRequest ''search'' []]) =
      [(0, Rejected NO_PLUGIN_MESSAGE)] \<and>
    hasActiveConnection (run uuid0 init [AddConnection ws_open, Close ''id-'', AddConnection ws_open])"
    using C5_close_of_active_connection
      [of "run uuid0 init [AddConnection ws_open]" "''id-''" uuid0 "''search''" "[]",
       THEN conjunct1]
    by (simp add: model_defs)
  have one_later: "outcomes (run uuid0 init
       [AddConnection ws_open, Close ''id-'', PingAll, SendRequest ''search'' [], Close ''id-'',
        SendRequest ''read_note'' []]) =
     [(0, Rejected NO_PLUGIN_MESSAGE), (1, Rejected NO_PLUGIN_MESSAGE)]"
    using C5_close_of_active_connection
      [of "run uuid0 init [AddConnection ws_open]" "''id-''" uuid0 "''read_note''" "[]",
       THEN conjunct2, THEN conjunct2, THEN conjunct1, THEN spec,
       of "[PingAll, SendRequest ''search'' [], Close ''id-'']"]
    by (simp add: model_defs)
  have two: "activeConnectionId (run uuid0 init [AddConnection ws_open, AddConnection ws_open]) = Some ''id-'' \<and>
    hasActiveConnection (run uuid0 init [AddConnection ws_open, AddConnection ws_open, Close ''id-'']) \<and>
    activeConnectionId (run uuid0 init [AddConnection ws_open, AddConnection ws_open, Close ''id-'']) =
      Some ''id-x'' \<and>
    connections (run uuid0 init
       [AddConnection ws_open, AddConnection ws_open, Close ''id-'', SendRequest ''search'' []]) =
     [(''id-x'', \<lparr>readyState = OPEN_ws,
                   sent = [Connected ''id-x'',
                           Request \<lparr>id_req = ''id-xx'', action = ''search'', payload = []\<rparr>]\<rparr>)] \<and>
    outcomes (run uuid0 init
       [AddConnection ws_open, AddConnection ws_open, Close ''id-'', SendRequest ''search'' []]) = []"
    using C5_close_of_active_connection
      [of "run uuid0 init [AddConnection ws_open, AddConnection ws_open]" "''id-''" uuid0 "''search''" "[]",
       THEN conjunct2, THEN conjunct1, THEN spec, THEN spec, THEN spec,
       of "''id-x''" "\<lparr>readyState = OPEN_ws, sent = [Connected ''id-x'']\<rparr>" "[]"]
    by (simp add: model_defs)
  have two_later: "list_all (keeps_active ''id-x'')
       [SendRequest ''search'' [], AddConnection ws_open, Close ''id-xxx''] \<and>
     activeConnectionId (run uuid0 init
       [AddConnection ws_open, AddConnection ws_open, Close ''id-'',
        SendRequest ''search'' [], AddConnection ws_open, Close ''id-xxx'']) = Some ''id-x'' \<and>
     connections (run uuid0 init
       [AddConnection ws_open, AddConnection ws_open, Close ''id-'',
        SendRequest ''search'' [], AddConnection ws_open, Close ''id-xxx'',
        SendRequest ''read_note'' []]) =
     [(''id-x'', \<lparr>readyState = OPEN_ws,
                   sent = [Connected ''id-x'',
                           Request \<lparr>id_req = ''id-xx'', action = ''search'', payload = []\<rparr>,
                           Request \<lparr>id_req = ''id-xxxx'', action = ''read_note'', payload = []\<rparr>]\<rparr>)]"
    using C5_close_of_active_connection
      [of "run uuid0 init [AddConnection ws_open, AddConnection ws_open]" "''id-''" uuid0
          "''read_note''" "[]",
       THEN conjunct2, THEN conjunct2, THEN conjunct2, THEN spec, THEN spec, THEN spec, THEN spec,
       of "''id-x''" "\<lparr>readyState = OPEN_ws, sent = [Connected ''id-x'']\<rparr>" "[]"
          "[SendRequest ''search'' [], AddConnection ws_open, Close ''id-xxx'']"]
    by (simp add: model_defs keeps_active_def)
  have two_closing: "list_all (keeps_active ''id-x'') [SocketState ''id-x'' CLOSING, PingAll] \<and>
     outcomes (run uuid0 init
       [AddConnection ws_open, AddConnection ws_open, Close ''id-'',
        SocketState ''id-x'' CLOSING, PingAll, SendRequest ''read_note'' []]) =
     [(0, Rejected NOT_READY_MESSAGE)]"
    using C5_close_of_active_connection
      [of "run uuid0 init [AddConnection ws_open, AddConnection ws_open]" "''id-''" uuid0
          "''read_note''" "[]",
       THEN conjunct2, THEN conjunct2, THEN conjunct2, THEN spec, THEN spec, THEN spec, THEN spec,
       of "''id-x''" "\<lparr>readyState = OPEN_ws, sent = [Connected ''id-x'']\<rparr>" "[]"
          "[SocketState ''id-x'' CLOSING, PingAll]"]
    by (simp add: model_defs keeps_active_def)
  show ?thesis
    using one one_later two two_later two_closing by (simp only: simp_thms)
qed

text \<open>
  The claim as stated fails when the promoted connection is tracked but its socket is not
  OPEN: two connections are registered, the second socket starts closing, the first (the
  active one) closes. A connection remains and \<^verbatim>\<open>hasActiveConnection()\<close> is true, but the
  next dispatch is rejected as not ready and nothing is written on the promoted socket.
\<close>

theorem C5_promoted_socket_not_open_counterexample:
  "activeConnectionId
     (run uuid0 init [AddConnection ws_open, AddConnection ws_open, SocketState ''id-x'' CLOSING]) =
     Some ''id-'' \<and>
   connections (on_close
     (run uuid0 init [AddConnection ws_open, AddConnection ws_open, SocketState ''id-x'' CLOSING])
     ''id-'') = [(''id-x'', \<lparr>readyState = CLOSING, sent = [Connected ''id-x'']\<rparr>)] \<and>
   hasActiveConnection (on_close
     (run uuid0 init [AddConnection ws_open, AddConnection ws_open, SocketState ''id-x'' CLOSING])
     ''id-'') \<and>
   outcomes (snd (sendRequest uuid0 (on_close
     (run uuid0 init [AddConnection ws_open, AddConnection ws_open, SocketState ''id-x'' CLOSING])
     ''id-'') ''search'' [])) = [(0, Rejected ''WebSocket connection not ready'')] \<and>
   connections (snd (sendRequest uuid0 (on_close
     (run uuid0 init [AddConnection ws_open, AddConnection ws_open, SocketState ''id-x'' CLOSING])
     ''id-'') ''search'' [])) = [(''id-x'', \<lparr>readyState = CLOSING, sent = [Connected ''id-x'']\<rparr>)]"
  by (simp add: model_defs NOT_READY_MESSAGE_def)

subsection \<open>One outcome per call\<close>

lemma calls_ok_at_most_one:
  assumes "calls_ok st"
  shows "length (outcomes_of st c) \<le> 1"
proof (cases "c < next_call st")
  case True
  show ?thesis
  proof (cases "map_of (timers st) c")
    case None
    with assms True have "length (outcomes_of st c) = 1"
      unfolding calls_ok_def by blast
    then show ?thesis by simp
  next
    case (Some t)
    with assms have "outcomes_of st c = []"
      unfolding calls_ok_def by blast
    then show ?thesis by simp
  qed
next
  case False
  with assms have "outcomes_of st c = []"
    unfolding calls_ok_def by (meson not_le_imp_less)
  then show ?thesis by simp
qed

lemma calls_ok_unsettled_iff:
  assumes "calls_ok st" "c < next_call st"
  shows "outcomes_of st c = [] \<longleftrightarrow> map_of (timers st) c \<noteq> None"
proof (cases "map_of (timers st) c")
  case None
  with assms have "length (outcomes_of st c) = 1"
    unfolding calls_ok_def by blast
  with None show ?thesis by auto
next
  case (Some t)
  with assms have "outcomes_of st c = []"
    unfolding calls_ok_def by blast
  with Some show ?thesis by simp
qed

lemma run_append: "run u st (xs @ ys) = run u (run u st xs) ys"
  by (induction xs arbitrary: st) simp_all

lemma outcomes_step_grows: "\<exists>xs. outcomes (step u st e) = outcomes st @ xs"
proof (cases e)
  case (Message m)
  then show ?thesis
    by (cases m)
      (auto simp: on_message_def console_write_def handleResponse_def Let_def settle_def
        clearTimeout_def split: option.splits)
next
  case (SendRequest a p)
  then show ?thesis
    by (auto simp: sendRequest_def Let_def settle_def clearTimeout_def console_write_def
        active_send_def socket_send_def split: option.splits)
next
  case (TimerFires h)
  then show ?thesis
    by (auto simp: fire_timer_def timeout_callback_def settle_def split: option.splits)
qed (simp_all add: addConnection_frame on_close_frame pingAll_def socket_state_def)

lemma outcomes_run_grows: "\<exists>xs. outcomes (run u st evs) = outcomes st @ xs"
proof (induction evs arbitrary: st)
  case Nil
  then show ?case by simp
next
  case (Cons e evs)
  obtain xs where "outcomes (step u st e) = outcomes st @ xs"
    using outcomes_step_grows by blast
  moreover obtain ys where "outcomes (run u (step u st e) evs) = outcomes (step u st e) @ ys"
    using Cons.IH by blast
  ultimately show ?case by simp
qed

lemma settled_stays:
  assumes "calls_ok st" "outcomes_of st c \<noteq> []"
  shows "outcomes_of (run u st evs) c = outcomes_of st c"
proof -
  obtain xs where "outcomes (run u st evs) = outcomes st @ xs"
    using outcomes_run_grows by blast
  then have eq: "outcomes_of (run u st evs) c =
                   outcomes_of st c @ map snd (filter (\<lambda>e. fst e = c) xs)"
    by (simp add: outcomes_of_def)
  have "length (outcomes_of (run u st evs) c) \<le> 1"
    using assms(1) by (intro calls_ok_at_most_one calls_ok_run)
  with eq assms(2) show ?thesis
    by (cases "outcomes_of st c") auto
qed

lemma timeout_after_wait:
  assumes "calls_ok st" "map_of (timers st) c = Some t"
  shows "outcomes_of (run u st [Advance REQUEST_TIMEOUT_MS, TimerFires c]) c = [Rejected TIMEOUT_MESSAGE]"
proof -
  let ?st = "st\<lparr>now := now st + REQUEST_TIMEOUT_MS\<rparr>"
  have d: "due t \<le> now ?st" and o: "outcomes_of st c = []"
    using assms unfolding calls_ok_def by auto
  have t: "map_of (timers ?st) c = Some t"
    using assms(2) by simp
  have "outcomes (fire_timer ?st c) = outcomes st @ [(c, Rejected TIMEOUT_MESSAGE)]"
    using fire_timer_due(3)[OF t d] by simp
  then show ?thesis
    using o by (simp add: outcomes_of_def)
qed

text \<open>
  C1: take any state reached from the initial one by any sequence of events (responses may
  be duplicated, late, unknown or out of order) and any call made so far. The
  continuations of the call have been invoked at most once. They have not been invoked
  exactly when the timer of the call is still armed, and then letting the timeout pass and
  the timer fire rejects the call with the timeout message as its single outcome. Once the
  call has an outcome, no entry of the pending table refers to it and no further event
  gives it another. With identifiers that never repeat, a call without an outcome still
  has its own entry in the pending table.
\<close>

theorem C1_exactly_one_outcome:
  assumes "st = run uuidv4 init evs" and "c < next_call st"
  shows "length (outcomes_of st c) \<le> 1 \<and>
         (outcomes_of st c = [] \<longleftrightarrow> map_of (timers st) c \<noteq> None) \<and>
         (outcomes_of st c = [] \<longrightarrow>
            outcomes_of (run uuidv4 st [Advance REQUEST_TIMEOUT_MS, TimerFires c]) c =
              [Rejected TIMEOUT_MESSAGE]) \<and>
         (outcomes_of st c \<noteq> [] \<longrightarrow>
            (\<forall>k p. map_of (pendingRequests st) k = Some p \<longrightarrow>
                   resolve p \<noteq> c \<and> reject p \<noteq> c \<and> timeout p \<noteq> c) \<and>
            (\<forall>evs'. outcomes_of (run uuidv4 st evs') c = outcomes_of st c)) \<and>
         (inj uuidv4 \<longrightarrow> outcomes_of st c = [] \<longrightarrow>
            (\<exists>t. map_of (timers st) c = Some t \<and>
                 map_of (pendingRequests st) (t_requestId t) =
                   Some \<lparr>resolve = c, reject = c, timeout = c\<rparr>))"
proof -
  have ok: "calls_ok st"
    by (simp add: assms(1) calls_ok_reachable)
  note iff = calls_ok_unsettled_iff[OF ok assms(2)]
  have wait: "outcomes_of (run uuidv4 st [Advance REQUEST_TIMEOUT_MS, TimerFires c]) c =
              [Rejected TIMEOUT_MESSAGE]" if "outcomes_of st c = []"
  proof -
    from that iff obtain t where "map_of (timers st) c = Some t" by auto
    then show ?thesis by (rule timeout_after_wait[OF ok])
  qed
  have gone: "resolve p \<noteq> c \<and> reject p \<noteq> c \<and> timeout p \<noteq> c"
    if "outcomes_of st c \<noteq> []" "map_of (pendingRequests st) k = Some p" for k p
  proof -
    from ok that(2) obtain t where
      "resolve p = timeout p" "reject p = timeout p" "map_of (timers st) (timeout p) = Some t"
      unfolding calls_ok_def by blast
    moreover from this ok have "outcomes_of st (timeout p) = []"
      unfolding calls_ok_def by blast
    ultimately show ?thesis using that(1) by auto
  qed
  have entry: "\<exists>t. map_of (timers st) c = Some t \<and>
                 map_of (pendingRequests st) (t_requestId t) =
                   Some \<lparr>resolve = c, reject = c, timeout = c\<rparr>"
    if "inj uuidv4" "outcomes_of st c = []"
  proof -
    from that(2) iff obtain t where t: "map_of (timers st) c = Some t" by auto
    have "entries_ok uuidv4 st"
      using that(1) by (simp add: assms(1) entries_ok_reachable)
    with t show ?thesis unfolding entries_ok_def by blast
  qed
  show ?thesis
    using calls_ok_at_most_one[OF ok, of c] iff wait gone settled_stays[OF ok] entry
    by blast
qed

theorem C1_exactly_one_outcome_witness:
  "inj uuid0 \<and>
   0 < next_call (run uuid0 init
         [AddConnection ws_open, SendRequest ''search'' [], SendRequest ''read_note'' [],
          Message (Some \<lparr>id_res = ''id-x'', result = Some (JString ''hit''), error = None\<rparr>),
          Message (Some \<lparr>id_res = ''id-x'', result = Some (JString ''again''), error = None\<rparr>)]) \<and>
   outcomes_of (run uuid0 init
         [AddConnection ws_open, SendRequest ''search'' [], SendRequest ''read_note'' [],
          Message (Some \<lparr>id_res = ''id-x'', result = Some (JString ''hit''), error = None\<rparr>),
          Message (Some \<lparr>id_res = ''id-x'', result = Some (JString ''again''), error = None\<rparr>)]) 0 =
     [Resolved (Some (JString ''hit''))] \<and>
   1 < next_call (run uuid0 init
         [AddConnection ws_open, SendRequest ''search'' [], SendRequest ''read_note'' [],
          Message (Some \<lparr>id_res = ''id-x'', result = Some (JString ''hit''), error = None\<rparr>),
          Message (Some \<lparr>id_res = ''id-x'', result = Some (JString ''again''), error = None\<rparr>)]) \<and>
   outcomes_of (run uuid0 init
         [AddConnection ws_open, SendRequest ''search'' [], SendRequest ''read_note'' [],
          Message (Some \<lparr>id_res = ''id-x'', result = Some (JString ''hit''), error = None\<rparr>),
          Message (Some \<lparr>id_res = ''id-x'', result = Some (JString ''again''), error = None\<rparr>)]) 1 = [] \<and>
   outcomes_of (run uuid0 init
         [AddConnection ws_open, SendRequest ''search'' [], SendRequest ''read_note'' [],
          Message (Some \<lparr>id_res = ''id-x'', result = Some (JString ''hit''), error = None\<rparr>),
          Message (Some \<lparr>id_res = ''id-x'', result = Some (JString ''again''), error = None\<rparr>),
          Advance REQUEST_TIMEOUT_MS, TimerFires 1]) 1 = [Rejected ''Request timeout after 30000ms'']"
  using C1_exactly_one_outcome [OF refl, of 0 uuid0
         "[AddConnection ws_open, SendRequest ''search'' [], SendRequest ''read_note'' [],
          Message (Some \<lparr>id_res = ''id-x'', result = Some (JString ''hit''), error = None\<rparr>),
          Message (Some \<lparr>id_res = ''id-x'', result = Some (JString ''again''), error = None\<rparr>)]"]
    C1_exactly_one_outcome [OF refl, of 1 uuid0
         "[AddConnection ws_open, SendRequest ''search'' [], SendRequest ''read_note'' [],
          Message (Some \<lparr>id_res = ''id-x'', result = Some (JString ''hit''), error = None\<rparr>),
          Message (Some \<lparr>id_res = ''id-x'', result = Some (JString ''again''), error = None\<rparr>)]"]
  by (simp add: model_defs inj_uuid0 TIMEOUT_MESSAGE_eq)

subsection \<open>Timeout\<close>

lemma timer_kept_step:
  assumes "calls_ok st" "map_of (timers st) c = Some t" "leaves_call c (t_requestId t) e"
  shows "map_of (timers (step u st e)) c = Some t"
proof (cases e)
  case (Message m)
  show ?thesis
  proof (cases m)
    case None
    with Message assms(2) show ?thesis
      by (simp add: on_message_def console_write_def)
  next
    case (Some r)
    with Message assms(3) have ne: "id_res r \<noteq> t_requestId t"
      by (simp add: leaves_call_def)
    show ?thesis
    proof (cases "map_of (pendingRequests st) (id_res r)")
      case None
      with Message Some assms(2) show ?thesis
        by (simp add: on_message_def handleResponse_unknown)
    next
      case (Some p)
      with assms(1) obtain t' where "map_of (timers st) (timeout p) = Some t'" "t_requestId t' = id_res r"
        unfolding calls_ok_def by blast
      with assms(2) ne have "timeout p \<noteq> c" by auto
      with Message \<open>m = Some r\<close> assms(2) show ?thesis
        by (simp add: on_message_def handleResponse_known(1)[OF Some] AList.delete_conv')
    qed
  qed
next
  case (SendRequest a p)
  have lt: "c \<noteq> next_call st"
    using assms(1,2) unfolding calls_ok_def by blast
  consider (none) "\<not> hasActiveConnection st"
    | (sent) "hasActiveConnection st" "writable st"
    | (not_ready) "hasActiveConnection st" "\<not> writable st" by blast
  then show ?thesis
  proof cases
    case none
    with SendRequest assms(2) show ?thesis by (simp add: sendRequest_no_connection)
  next
    case sent
    with SendRequest assms(2) lt show ?thesis
      by (simp add: sendRequest_sent(1) AList.update_conv')
  next
    case not_ready
    with SendRequest assms(2) lt show ?thesis
      by (simp add: sendRequest_not_ready(1) AList.delete_conv')
  qed
next
  case (TimerFires h)
  with assms(3) have "h \<noteq> c" by (simp add: leaves_call_def)
  with TimerFires assms(2) show ?thesis
    by (simp add: fire_timer_def timeout_callback_def settle_def AList.delete_conv'
        split: option.splits)
qed (use assms(2) in \<open>simp_all add: addConnection_frame on_close_frame pingAll_frame socket_state_frame\<close>)

lemma timer_kept_run:
  assumes "calls_ok st" "map_of (timers st) c = Some t" "\<forall>e \<in> set evs. leaves_call c (t_requestId t) e"
  shows "map_of (timers (run u st evs)) c = Some t"
  using assms
proof (induction evs arbitrary: st)
  case Nil
  then show ?case by simp
next
  case (Cons e evs)
  have "map_of (timers (step u st e)) c = Some t"
    using Cons.prems by (intro timer_kept_step) auto
  moreover have "calls_ok (step u st e)"
    using Cons.prems(1) by (rule calls_ok_step)
  ultimately show ?case
    using Cons.IH Cons.prems(3) by simp
qed

text \<open>
  C3: a call is dispatched in a reachable state and its envelope is written (the active
  socket is OPEN). Its timer is armed for \<^verbatim>\<open>REQUEST_TIMEOUT_MS\<close> = 30000 ms after the
  dispatch. As long as no response with the identifier of the call is handled and its
  timer has not fired, whatever else happens, the timer stays armed and the call has no
  outcome; the timer cannot fire before the 30000 ms have passed; when it fires, the call
  is rejected with the timeout message and its identifier is deleted from the pending
  table in the same step, so that a response carrying that identifier afterwards finds no
  entry and only writes a warning. With identifiers that never repeat, the entry of the
  call is in the pending table until then.
\<close>

theorem C3_timeout_rejects_and_removes:
  assumes "st = run uuidv4 init evs0"
    and "hasActiveConnection st" and "writable st"
    and "st1 = snd (sendRequest uuidv4 st act pl)"
    and "\<forall>e \<in> set evs. leaves_call (next_call st) (uuidv4 (uuid_calls st)) e"
    and "st2 = run uuidv4 st1 evs"
  shows "REQUEST_TIMEOUT_MS = 30000 \<and>
         map_of (timers st2) (next_call st) =
           Some \<lparr>t_requestId = uuidv4 (uuid_calls st), due = now st + REQUEST_TIMEOUT_MS\<rparr> \<and>
         outcomes_of st2 (next_call st) = [] \<and>
         (inj uuidv4 \<longrightarrow>
            map_of (pendingRequests st2) (uuidv4 (uuid_calls st)) =
              Some \<lparr>resolve = next_call st, reject = next_call st, timeout = next_call st\<rparr>) \<and>
         (now st2 < now st + REQUEST_TIMEOUT_MS \<longrightarrow> fire_timer st2 (next_call st) = st2) \<and>
         (now st + REQUEST_TIMEOUT_MS \<le> now st2 \<longrightarrow>
            outcomes (fire_timer st2 (next_call st)) =
              outcomes st2 @ [(next_call st, Rejected ''Request timeout after 30000ms'')] \<and>
            outcomes_of (fire_timer st2 (next_call st)) (next_call st) =
              [Rejected ''Request timeout after 30000ms''] \<and>
            map_of (pendingRequests (fire_timer st2 (next_call st))) (uuidv4 (uuid_calls st)) = None \<and>
            map_of (timers (fire_timer st2 (next_call st))) (next_call st) = None \<and>
            (\<forall>r. id_res r = uuidv4 (uuid_calls st) \<longrightarrow>
               handleResponse (fire_timer st2 (next_call st)) r =
                 (fire_timer st2 (next_call st))
                   \<lparr>console := console (fire_timer st2 (next_call st)) @
                      [(WARN, ''[plugin] received response for unknown request: '' @ id_res r)]\<rparr>))"
proof -
  let ?c = "next_call st" and ?rid = "uuidv4 (uuid_calls st)"
  let ?t = "\<lparr>t_requestId = ?rid, due = now st + REQUEST_TIMEOUT_MS\<rparr>"
  have ok: "calls_ok st"
    by (simp add: assms(1) calls_ok_reachable)
  have ok1: "calls_ok st1"
    unfolding assms(4) using ok by (rule calls_ok_sendRequest)
  have t1: "map_of (timers st1) ?c = Some ?t"
    unfolding assms(4) by (simp add: sendRequest_sent(1)[OF assms(2,3)] AList.update_conv')
  have ok2: "calls_ok st2"
    unfolding assms(6) using ok1 by (rule calls_ok_run)
  have t2: "map_of (timers st2) ?c = Some ?t"
    unfolding assms(6) using ok1 t1 assms(5) by (intro timer_kept_run) simp_all
  have o2: "outcomes_of st2 ?c = []"
    using ok2 t2 unfolding calls_ok_def by blast
  have entry: "map_of (pendingRequests st2) ?rid = Some \<lparr>resolve = ?c, reject = ?c, timeout = ?c\<rparr>"
    if "inj uuidv4"
  proof -
    have "entries_ok uuidv4 st"
      using that by (simp add: assms(1) entries_ok_reachable)
    then have "entries_ok uuidv4 st1"
      unfolding assms(4) using that ok by (intro entries_ok_sendRequest)
    then have "entries_ok uuidv4 st2"
      unfolding assms(6) using that ok1 by (intro entries_ok_run)
    with t2 show ?thesis
      unfolding entries_ok_def by fastforce
  qed
  have early: "fire_timer st2 ?c = st2" if "now st2 < now st + REQUEST_TIMEOUT_MS"
    using that t2 by (intro fire_timer_idle) simp
  {
    assume late: "now st + REQUEST_TIMEOUT_MS \<le> now st2"
    then have d: "due ?t \<le> now st2" by simp
    note f = fire_timer_due[OF t2 d]
    have f3: "outcomes (fire_timer st2 ?c) = outcomes st2 @ [(?c, Rejected ''Request timeout after 30000ms'')]"
      using f(3) by (simp add: TIMEOUT_MESSAGE_eq)
    then have f4: "outcomes_of (fire_timer st2 ?c) ?c = [Rejected ''Request timeout after 30000ms'']"
      using o2 by (simp add: outcomes_of_def)
    have f2: "map_of (pendingRequests (fire_timer st2 ?c)) ?rid = None"
      using f(2) by (simp add: AList.delete_conv')
    have f1: "map_of (timers (fire_timer st2 ?c)) ?c = None"
      using f(1) by (simp add: AList.delete_conv')
    have f5: "handleResponse (fire_timer st2 ?c) r =
                 (fire_timer st2 ?c)\<lparr>console := console (fire_timer st2 ?c) @
                      [(WARN, ''[plugin] received response for unknown request: '' @ id_res r)]\<rparr>"
      if "id_res r = ?rid" for r
      using f2 that by (intro handleResponse_unknown) simp
    note f3 f4 f2 f1 f5
  }
  note fired = this
  show ?thesis
    using t2 o2 entry early fired by (simp add: REQUEST_TIMEOUT_MS_def)
qed

theorem C3_timeout_rejects_and_removes_witness:
  "hasActiveConnection (run uuid0 init [AddConnection ws_open]) \<and>
   writable (run uuid0 init [AddConnection ws_open]) \<and>
   list_all (leaves_call 0 ''id-x'')
     [Message (Some \<lparr>id_res = ''other'', result = None, error = None\<rparr>), Advance 29999] \<and>
   fire_timer (run uuid0 init [AddConnection ws_open, SendRequest ''search'' [],
       Message (Some \<lparr>id_res = ''other'', result = None, error = None\<rparr>), Advance 29999]) 0 =
     run uuid0 init [AddConnection ws_open, SendRequest ''search'' [],
       Message (Some \<lparr>id_res = ''other'', result = None, error = None\<rparr>), Advance 29999] \<and>
   list_all (leaves_call 0 ''id-x'')
     [Message (Some \<lparr>id_res = ''other'', result = None, error = None\<rparr>), Advance 30000] \<and>
   outcomes (run uuid0 init [AddConnection ws_open, SendRequest ''search'' [],
       Message (Some \<lparr>id_res = ''other'', result = None, error = None\<rparr>), Advance 30000,
       TimerFires 0]) = [(0, Rejected ''Request timeout after 30000ms'')] \<and>
   pendingRequests (run uuid0 init [AddConnection ws_open, SendRequest ''search'' [],
       Message (Some \<lparr>id_res = ''other'', result = None, error = None\<rparr>), Advance 30000,
       TimerFires 0]) = [] \<and>
   outcomes (run uuid0 init [AddConnection ws_open, SendRequest ''search'' [],
       Message (Some \<lparr>id_res = ''other'', result = None, error = None\<rparr>), Advance 30000,
       TimerFires 0,
       Message (Some \<lparr>id_res = ''id-x'', result = Some (JString ''late''), error = None\<rparr>)]) =
     [(0, Rejected ''Request timeout after 30000ms'')]"
  using C3_timeout_rejects_and_removes
      [OF refl _ _ refl _ refl, of uuid0 "[AddConnection ws_open]"
         "[Message (Some \<lparr>id_res = ''other'', result = None, error = None\<rparr>), Advance 29999]"
         "''search''" "[]"]
    C3_timeout_rejects_and_removes
      [OF refl _ _ refl _ refl, of uuid0 "[AddConnection ws_open]"
         "[Message (Some \<lparr>id_res = ''other'', result = None, error = None\<rparr>), Advance 30000]"
         "''search''" "[]"]
  by (simp add: model_defs writable_def leaves_call_def REQUEST_TIMEOUT_MS_def TIMEOUT_MESSAGE_eq)

section \<open>Properties of the reconnecting client\<close>

lemma backoff_double:
  fixes i m :: nat
  shows "min (min (i * 2 ^ j) m * 2) m = min (i * 2 ^ Suc j) m"
  by (simp add: min_def)

lemma failed_attempts_state:
  assumes "initialReconnectDelay cfg \<le> maxReconnectDelay cfg" "j \<le> maxReconnectAttempts cfg"
  shows "(failed_attempt cfg ^^ j) (connect (client_new cfg)) =
           \<lparr>status = S_connecting, attempts = j,
            delay = min (initialReconnectDelay cfg * 2 ^ j) (maxReconnectDelay cfg),
            scheduled = None, stopped = False\<rparr>"
  using assms(2)
proof (induction j)
  case 0
  then show ?case
    using assms(1) by (simp add: connect_def client_new_def)
next
  case (Suc j)
  then have "(failed_attempt cfg ^^ j) (connect (client_new cfg)) =
           \<lparr>status = S_connecting, attempts = j,
            delay = min (initialReconnectDelay cfg * 2 ^ j) (maxReconnectDelay cfg),
            scheduled = None, stopped = False\<rparr>"
    by simp
  then have "(failed_attempt cfg ^^ Suc j) (connect (client_new cfg)) =
          failed_attempt cfg
           \<lparr>status = S_connecting, attempts = j,
            delay = min (initialReconnectDelay cfg * 2 ^ j) (maxReconnectDelay cfg),
            scheduled = None, stopped = False\<rparr>"
    by simp
  also have "\<dots> =
           \<lparr>status = S_connecting, attempts = Suc j,
            delay = min (min (initialReconnectDelay cfg * 2 ^ j) (maxReconnectDelay cfg) * 2)
                      (maxReconnectDelay cfg),
            scheduled = None, stopped = False\<rparr>"
    using Suc.prems
    by (simp add: failed_attempt_def client_on_close_def reconnect_fires_def connect_def Let_def)
  finally show ?case
    by (simp only: backoff_double)
qed

lemma exhausted_stays:
  assumes "status c = S_disconnected" "scheduled c = None"
  shows "failed_attempt cfg c = c" "client_on_close cfg c = c" "reconnect_fires c = c"
  using assms by (simp_all add: failed_attempt_def client_on_close_def reconnect_fires_def)

lemma after_cap:
  assumes "initialReconnectDelay cfg \<le> maxReconnectDelay cfg"
  shows "(failed_attempt cfg ^^ (Suc (maxReconnectAttempts cfg) + n)) (connect (client_new cfg)) =
           \<lparr>status = S_disconnected, attempts = maxReconnectAttempts cfg,
            delay = min (initialReconnectDelay cfg * 2 ^ maxReconnectAttempts cfg) (maxReconnectDelay cfg),
            scheduled = None, stopped = False\<rparr>"
proof (induction n)
  case 0
  have "(failed_attempt cfg ^^ Suc (maxReconnectAttempts cfg)) (connect (client_new cfg)) =
          failed_attempt cfg
           \<lparr>status = S_connecting, attempts = maxReconnectAttempts cfg,
            delay = min (initialReconnectDelay cfg * 2 ^ maxReconnectAttempts cfg) (maxReconnectDelay cfg),
            scheduled = None, stopped = False\<rparr>"
    by (simp add: failed_attempts_state[OF assms order_refl])
  also have "\<dots> =
           \<lparr>status = S_disconnected, attempts = maxReconnectAttempts cfg,
            delay = min (initialReconnectDelay cfg * 2 ^ maxReconnectAttempts cfg) (maxReconnectDelay cfg),
            scheduled = None, stopped = False\<rparr>"
    by (simp add: failed_attempt_def client_on_close_def reconnect_fires_def Let_def)
  finally show ?case
    by simp
next
  case (Suc n)
  then show ?case
    by (simp add: exhausted_stays(1))
qed


lemma wsClient_config_simps:
  "maxReconnectAttempts wsClient_config = 10"
  "initialReconnectDelay wsClient_config = 1000"
  "maxReconnectDelay wsClient_config = 30000"
  by (simp_all add: wsClient_config_def)

lemma configured_kth_failure:
  assumes "1 \<le> k" "k \<le> 10"
  shows "client_on_close wsClient_config
               ((failed_attempt wsClient_config ^^ (k - 1)) (connect (client_new wsClient_config))) =
         \<lparr>status = S_disconnected, attempts = k,
           delay = min (min (1000 * 2 ^ (k - 1)) 30000 * 2) 30000,
           scheduled = Some (min (1000 * 2 ^ (k - 1)) 30000), stopped = False\<rparr>"
proof -
  have le: "initialReconnectDelay wsClient_config \<le> maxReconnectDelay wsClient_config"
    by (simp add: wsClient_config_simps)
  have "k - 1 \<le> maxReconnectAttempts wsClient_config"
    using assms(2) by (simp add: wsClient_config_simps)
  from failed_attempts_state[OF le this]
  have "(failed_attempt wsClient_config ^^ (k - 1)) (connect (client_new wsClient_config)) =
     \<lparr>status = S_connecting, attempts = k - 1,
            delay = min (1000 * 2 ^ (k - 1)) 30000,
            scheduled = None, stopped = False\<rparr>"
    by (simp only: wsClient_config_simps)
  then have "client_on_close wsClient_config
               ((failed_attempt wsClient_config ^^ (k - 1)) (connect (client_new wsClient_config))) =
         client_on_close wsClient_config \<lparr>status = S_connecting, attempts = k - 1,
            delay = min (1000 * 2 ^ (k - 1)) 30000,
            scheduled = None, stopped = False\<rparr>"
    by (simp only:)
  also have "\<dots> = \<lparr>status = S_disconnected, attempts = Suc (k - 1),
                   delay = min (min (1000 * 2 ^ (k - 1)) 30000 * 2) 30000,
                   scheduled = Some (min (1000 * 2 ^ (k - 1)) 30000), stopped = False\<rparr>"
    using assms(1,2)
    by (simp add: client_on_close_def Let_def wsClient_config_simps)
  finally show ?thesis
    using assms(1) by simp
qed

lemma configured_after_cap:
  assumes "10 < k"
  shows "client_on_close wsClient_config
               ((failed_attempt wsClient_config ^^ (k - 1)) (connect (client_new wsClient_config))) =
         \<lparr>status = S_disconnected, attempts = 10,
           delay = min (1000 * 2 ^ 10) 30000, scheduled = None, stopped = False\<rparr>"
proof (cases "k = 11")
  case True
  have le: "initialReconnectDelay wsClient_config \<le> maxReconnectDelay wsClient_config"
    by (simp add: wsClient_config_simps)
  have "(10::nat) \<le> maxReconnectAttempts wsClient_config"
    by (simp add: wsClient_config_simps)
  from failed_attempts_state[OF le this]
  have "(failed_attempt wsClient_config ^^ 10) (connect (client_new wsClient_config)) =
     \<lparr>status = S_connecting, attempts = 10,
            delay = min (1000 * 2 ^ 10) 30000,
            scheduled = None, stopped = False\<rparr>"
    by (simp only: wsClient_config_simps)
  moreover have "k - 1 = 10"
    using True by simp
  ultimately have "client_on_close wsClient_config
               ((failed_attempt wsClient_config ^^ (k - 1)) (connect (client_new wsClient_config))) =
         client_on_close wsClient_config \<lparr>status = S_connecting, attempts = 10,
            delay = min (1000 * 2 ^ 10) 30000,
            scheduled = None, stopped = False\<rparr>"
    by (simp only:)
  also have "\<dots> = \<lparr>status = S_disconnected, attempts = 10,
           delay = min (1000 * 2 ^ 10) 30000, scheduled = None, stopped = False\<rparr>"
    by (simp add: client_on_close_def Let_def wsClient_config_simps)
  finally show ?thesis .
next
  case False
  have le: "initialReconnectDelay wsClient_config \<le> maxReconnectDelay wsClient_config"
    by (simp add: wsClient_config_simps)
  from False assms have "k - 1 = Suc (maxReconnectAttempts wsClient_config) + (k - 12)"
    by (simp add: wsClient_config_simps)
  with after_cap[OF le, of "k - 12"]
  have "(failed_attempt wsClient_config ^^ (k - 1)) (connect (client_new wsClient_config)) =
         \<lparr>status = S_disconnected, attempts = 10,
           delay = min (1000 * 2 ^ 10) 30000, scheduled = None, stopped = False\<rparr>"
    by (simp only: wsClient_config_simps)
  then have "client_on_close wsClient_config
               ((failed_attempt wsClient_config ^^ (k - 1)) (connect (client_new wsClient_config))) =
         client_on_close wsClient_config \<lparr>status = S_disconnected, attempts = 10,
           delay = min (1000 * 2 ^ 10) 30000, scheduled = None, stopped = False\<rparr>"
    by (simp only:)
  also have "\<dots> = \<lparr>status = S_disconnected, attempts = 10,
           delay = min (1000 * 2 ^ 10) 30000, scheduled = None, stopped = False\<rparr>"
    by (simp add: client_on_close_def)
  finally show ?thesis .
qed

text \<open>
  C9 (the client is modelled from the specification, its configuration is the one the
  plugin passes): let the client fail \<open>k\<close> times in a row, each failure followed by the
  automatic retry. Up to the tenth failure, the \<open>k\<close>-th failure schedules the next attempt
  after min(1000 * 2^(k-1), 30000) ms, the attempt count is \<open>k\<close>, and the scheduled
  reconnect puts the client back into connecting. From the eleventh failure on nothing is
  scheduled: the attempt count stays at 10, the client stays disconnected under further
  close events and timer ticks, and only \<^verbatim>\<open>connect()\<close> starts a new attempt.
\<close>

theorem C9_reconnect_backoff:
  assumes "1 \<le> k"
    and "c = client_on_close wsClient_config
               ((failed_attempt wsClient_config ^^ (k - 1)) (connect (client_new wsClient_config)))"
  shows "(k \<le> 10 \<longrightarrow>
            scheduled c = Some (min (1000 * 2 ^ (k - 1)) 30000) \<and> attempts c = k \<and>
            status c = S_disconnected \<and> status (reconnect_fires c) = S_connecting) \<and>
         (10 < k \<longrightarrow>
            scheduled c = None \<and> attempts c = 10 \<and> status c = S_disconnected \<and>
            reconnect_fires c = c \<and> client_on_close wsClient_config c = c \<and>
            status (connect c) = S_connecting)"
proof (intro conjI impI)
  {
    assume k: "k \<le> 10"
    note c = configured_kth_failure[OF assms(1) k, folded assms(2)]
    show "scheduled c = Some (min (1000 * 2 ^ (k - 1)) 30000)" "attempts c = k"
      "status c = S_disconnected" "status (reconnect_fires c) = S_connecting"
      by (simp_all add: c reconnect_fires_def connect_def)
  }
  {
    assume k: "10 < k"
    note c = configured_after_cap[OF k, folded assms(2)]
    show "scheduled c = None" "attempts c = 10" "status c = S_disconnected"
      "reconnect_fires c = c" "client_on_close wsClient_config c = c"
      "status (connect c) = S_connecting"
      by (simp_all add: c reconnect_fires_def client_on_close_def connect_def)
  }
qed

theorem C9_reconnect_backoff_witness:
  "scheduled (client_on_close wsClient_config
     ((failed_attempt wsClient_config ^^ (3 - 1)) (connect (client_new wsClient_config)))) = Some 4000 \<and>
   attempts (client_on_close wsClient_config
     ((failed_attempt wsClient_config ^^ (3 - 1)) (connect (client_new wsClient_config)))) = 3 \<and>
   scheduled (client_on_close wsClient_config
     ((failed_attempt wsClient_config ^^ (10 - 1)) (connect (client_new wsClient_config)))) = Some 30000 \<and>
   scheduled (client_on_close wsClient_config
     ((failed_attempt wsClient_config ^^ (11 - 1)) (connect (client_new wsClient_config)))) = None \<and>
   attempts (client_on_close wsClient_config
     ((failed_attempt wsClient_config ^^ (11 - 1)) (connect (client_new wsClient_config)))) = 10"
  using C9_reconnect_backoff[of 3, OF _ refl] C9_reconnect_backoff[of 10, OF _ refl]
    C9_reconnect_backoff[of 11, OF _ refl]
  by simp

end
